theory Spec2Isabelle
  imports Main "HOL-Library.Sublist"
begin

section \<open>Stores and errors\<close>

text \<open>
  Both scripts read and write UTF-8 text files. A store maps a path to the text of the
  file at that path, as Python's text mode hands it over (decoded, every line end a
  newline character); a path that is not in the domain does not exist. Text is a \<open>string\<close>:
  the UTF-8 bytes of the Python \<open>str\<close>, so the non-ASCII characters of the generated
  fragments are written as their bytes. Substring search and replacement on valid UTF-8
  agree with the same operations on code points. Console output is left out of the
  model, except for the summary that \<open>main\<close> of the transformer prints.
\<close>

type_synonym 'p store = "'p \<rightharpoonup> string"

datatype py_error = FileNotFoundError | KeyError | UnicodeDecodeError

section \<open>remove-movie-code.py: the line-range deletion engine\<close>

type_synonym line_range = "int \<times> int \<times> string"

definition DELETE_RANGES :: "line_range list" where
  "DELETE_RANGES =
    [(14, 14, ''getMovieById import''),
     (20, 30, ''Movie Mode imports block''),
     (33, 36, ''Movie type imports''),
     (3, 3, ''createPortal import''),
     (58, 62, ''Movie playback state''),
     (141, 185, ''Movie Mode state variables''),
     (546, 726, ''Load movie from URL''),
     (728, 747, ''Detect shared link''),
     (1829, 1849, ''Build effect context''),
     (1851, 1875, ''Auto-activate effect''),
     (2275, 2296, ''Tick loop for effects''),
     (2298, 2370, ''Auto-play gallery movie''),
     (2371, 2445, ''Sync auto-solution to movie mode''),
     (2446, 2457, ''Save original state''),
     (2459, 2531, ''Set onComplete callback''),
     (2533, 2546, ''Cleanup on mode switch''),
     (2548, 2560, ''Close effects dropdown''),
     (2025, 2273, ''Effect handlers and credits handlers''),
     (1877, 2023, ''Effect activation/clear/select handlers''),
     (3333, 3398, ''CreditsModal and ChallengeOverlay JSX'')]"

text \<open>\<open>f.readlines()\<close>: the text cut after every newline, the newline kept.\<close>

fun readlines :: "string \<Rightarrow> string list" where
  "readlines [] = []"
| "readlines (c # cs) =
     (if c = CHR 0x0A then [c] # readlines cs
      else (case readlines cs of [] \<Rightarrow> [[c]] | l # ls \<Rightarrow> (c # l) # ls))"

text \<open>\<open>f.writelines(kept_lines)\<close> writes the lines one after the other.\<close>

definition writelines :: "string list \<Rightarrow> string" where
  "writelines ls = concat ls"

text \<open>
  The inner loop \<open>for line_num in range(start - 1, end): lines_to_delete.add(line_num)\<close>
  for one range, and the outer loop over all ranges, starting from the empty set.
\<close>

fun mark_range :: "line_range \<Rightarrow> int set \<Rightarrow> int set" where
  "mark_range (start, end, desc) S = fold insert [start - 1 .. end - 1] S"

definition lines_to_delete :: "line_range list \<Rightarrow> int set" where
  "lines_to_delete ranges = fold mark_range ranges {}"

text \<open>\<open>[line for i, line in enumerate(lines) if i not in lines_to_delete]\<close>\<close>

definition kept_lines :: "line_range list \<Rightarrow> string list \<Rightarrow> string list" where
  "kept_lines ranges lines =
     map snd (filter (\<lambda>(i, line). int i \<notin> lines_to_delete ranges) (enumerate 0 lines))"

definition input_file :: string where
  "input_file = ''c:'' @ [CHR 0x5C] @ ''Projects'' @ [CHR 0x5C] @ ''Koos puzzle v1'' @ [CHR 0x5C]
     @ ''src'' @ [CHR 0x5C] @ ''pages'' @ [CHR 0x5C] @ ''solve'' @ [CHR 0x5C] @ ''SolvePage.tsx''"

definition output_file :: string where
  "output_file = ''c:'' @ [CHR 0x5C] @ ''Projects'' @ [CHR 0x5C] @ ''Koos puzzle v1'' @ [CHR 0x5C]
     @ ''src'' @ [CHR 0x5C] @ ''pages'' @ [CHR 0x5C] @ ''solve'' @ [CHR 0x5C]
     @ ''SolvePage.tsx.cleaned''"

text \<open>
  \<open>main\<close> of remove-movie-code.py, with the module-level list \<open>DELETE_RANGES\<close> as a
  parameter. Opening a missing input file raises; nothing else in the body can.
\<close>

definition main_with :: "line_range list \<Rightarrow> string store \<Rightarrow> py_error + string store" where
  "main_with ranges fs =
     (case fs input_file of
        None \<Rightarrow> Inl FileNotFoundError
      | Some text \<Rightarrow>
          Inr (fs(output_file \<mapsto> writelines (kept_lines ranges (readlines text)))))"

definition main_remove :: "string store \<Rightarrow> py_error + string store" where
  "main_remove fs = main_with DELETE_RANGES fs"

text \<open>The range list with every end clipped to the number of lines of the document.\<close>

fun clip_range :: "nat \<Rightarrow> line_range \<Rightarrow> line_range" where
  "clip_range n (start, end, desc) = (start, min end (int n), desc)"

section \<open>refactor_movie_pages.py: the text transformer\<close>

subsection \<open>Python string operations\<close>

text \<open>\<open>old in s\<close>: \<open>old\<close> occurs in \<open>s\<close> as a contiguous substring.\<close>

fun str_in :: "string \<Rightarrow> string \<Rightarrow> bool" where
  "str_in old [] = (old = [])"
| "str_in old (c # cs) = (prefix old (c # cs) \<or> str_in old cs)"

text \<open>
  \<open>s.replace(old, new)\<close>: every occurrence of \<open>old\<close>, found from left to right
  without overlap, is replaced by \<open>new\<close>. For an empty \<open>old\<close> Python puts \<open>new\<close>
  before every character and at the end.
\<close>

fun replace_from :: "string \<Rightarrow> string \<Rightarrow> string \<Rightarrow> string" where
  "replace_from old new [] = []"
| "replace_from old new (c # cs) =
     (if prefix old (c # cs) then new @ replace_from old new (drop (length old - 1) cs)
      else c # replace_from old new cs)"

definition replace :: "string \<Rightarrow> string \<Rightarrow> string \<Rightarrow> string" where
  "replace old new s =
     (if old = [] then new @ concat (map (\<lambda>c. c # new) s) else replace_from old new s)"

text \<open>\<open>s.count(old)\<close> for a non-empty \<open>old\<close>: the occurrences \<open>replace\<close> finds.\<close>

fun count_str :: "string \<Rightarrow> string \<Rightarrow> nat" where
  "count_str old [] = 0"
| "count_str old (c # cs) =
     (if prefix old (c # cs) then Suc (count_str old (drop (length old - 1) cs))
      else count_str old cs)"

subsection \<open>The regular expressions the script uses\<close>

text \<open>
  Every pattern of the script is a sequence of literal text, \<open>.*?\<close> and \<open>.*\<close>; the
  patterns with a dot are compiled with \<open>re.DOTALL\<close>, so the dot matches every
  character. \<open>re_match\<close> is the backtracking matcher at the start of the input: it
  returns the input left after the first match in priority order (\<open>.*?\<close> tries the
  shortest stretch first, \<open>.*\<close> the longest).
\<close>

datatype re_item = Lit string | AnyLazy | AnyGreedy

fun re_match :: "re_item list \<Rightarrow> string \<Rightarrow> string option" where
  "re_match [] s = Some s"
| "re_match (Lit l # ts) s =
     (if prefix l s then re_match ts (drop (length l) s) else None)"
| "re_match (AnyLazy # ts) s =
     (case re_match ts s of
        Some r \<Rightarrow> Some r
      | None \<Rightarrow> (case s of [] \<Rightarrow> None | c # cs \<Rightarrow> re_match (AnyLazy # ts) cs))"
| "re_match (AnyGreedy # ts) s =
     (case s of
        [] \<Rightarrow> re_match ts []
      | c # cs \<Rightarrow>
          (case re_match (AnyGreedy # ts) cs of
             Some r \<Rightarrow> Some r
           | None \<Rightarrow> re_match ts s))"

text \<open>
  \<open>re.sub(pattern, repl, s)\<close> with a replacement free of backslashes: scan from the
  left, replace a match and go on behind it, copy a character where nothing matches.
  The patterns of the script start with literal text, so a match is never empty; the
  branch for an empty match (replace, copy one character, go on) is there to make the
  function total.
\<close>

fun re_sub :: "re_item list \<Rightarrow> string \<Rightarrow> string \<Rightarrow> string" where
  "re_sub pat repl [] = (case re_match pat [] of Some r \<Rightarrow> repl | None \<Rightarrow> [])"
| "re_sub pat repl (c # cs) =
     (case re_match pat (c # cs) of
        None \<Rightarrow> c # re_sub pat repl cs
      | Some r \<Rightarrow>
          (if length r < length (c # cs) then repl @ re_sub pat repl r
           else repl @ c # re_sub pat repl cs))"

text \<open>\<open>re.search(pattern, s) is not None\<close>: the pattern matches at some position.\<close>

fun re_search :: "re_item list \<Rightarrow> string \<Rightarrow> bool" where
  "re_search pat [] = (re_match pat [] \<noteq> None)"
| "re_search pat (c # cs) = (re_match pat (c # cs) \<noteq> None \<or> re_search pat cs)"

subsection \<open>The rule table\<close>

record effect_config =
  old_import :: string
  new_import :: string
  config_type :: string
  default_config :: string
  effect_name :: string
  ref_name :: string
  handle_type :: string

definition turntable_config :: effect_config where
  "turntable_config = \<lparr>
     old_import = ''from '../../effects/turntable/TurnTableEffect';'',
     new_import = ''// import { TurnTableEffect } from '../../effects/turntable/TurnTableEffect'; // OLD: direct management\<newline>''
       @ ''import MovieTurntablePlayer, { type TurntableMovieHandle } from '../../effects/turntable/MovieTurntablePlayer'; // NEW: headless controller'',
     config_type = ''TurnTableConfig'',
     default_config = ''DEFAULT_CONFIG'',
     effect_name = ''Turntable'',
     ref_name = ''turntablePlayerRef'',
     handle_type = ''TurntableMovieHandle'' \<rparr>"

definition reveal_config :: effect_config where
  "reveal_config = \<lparr>
     old_import = ''from '../../effects/reveal/RevealEffect';'',
     new_import = ''// import { RevealEffect } from '../../effects/reveal/RevealEffect'; // OLD: direct management\<newline>''
       @ ''import MovieRevealPlayer, { type RevealMovieHandle } from '../../effects/reveal/MovieRevealPlayer'; // NEW: headless controller'',
     config_type = ''RevealConfig'',
     default_config = ''DEFAULT_CONFIG'',
     effect_name = ''Reveal'',
     ref_name = ''revealPlayerRef'',
     handle_type = ''RevealMovieHandle'' \<rparr>"

definition orbit_config :: effect_config where
  "orbit_config = \<lparr>
     old_import = ''from '../../effects/orbit/OrbitEffect';'',
     new_import = ''// import { OrbitEffect } from '../../effects/orbit/OrbitEffect'; // OLD: direct management\<newline>''
       @ ''import MovieOrbitPlayer, { type OrbitMovieHandle } from '../../effects/orbit/MovieOrbitPlayer'; // NEW: headless controller'',
     config_type = ''OrbitConfig'',
     default_config = ''DEFAULT_CONFIG'',
     effect_name = ''Orbit'',
     ref_name = ''orbitPlayerRef'',
     handle_type = ''OrbitMovieHandle'' \<rparr>"

definition explosion_config :: effect_config where
  "explosion_config = \<lparr>
     old_import = ''from '../../effects/explosion/ExplosionEffect';'',
     new_import = ''// import { ExplosionEffect } from '../../effects/explosion/ExplosionEffect'; // OLD: direct management\<newline>''
       @ ''import MovieExplosionPlayer, { type ExplosionMovieHandle } from '../../effects/explosion/MovieExplosionPlayer'; // NEW: headless controller'',
     config_type = ''ExplosionConfig'',
     default_config = ''DEFAULT_CONFIG'',
     effect_name = ''Explosion'',
     ref_name = ''explosionPlayerRef'',
     handle_type = ''ExplosionMovieHandle'' \<rparr>"

text \<open>The dictionary \<open>EFFECTS\<close>; \<open>EFFECTS[effect_key]\<close> raises KeyError on any other key.\<close>

definition EFFECTS :: "string \<rightharpoonup> effect_config" where
  "EFFECTS = map_of
     [(''turntable'', turntable_config),
      (''reveal'', reveal_config),
      (''orbit'', orbit_config),
      (''explosion'', explosion_config)]"

subsection \<open>The six steps of \<open>refactor_file\<close>\<close>

text \<open>Step 1: replace the import.\<close>

definition old_import_line :: "effect_config \<Rightarrow> string" where
  "old_import_line config = ''import { '' @ effect_name config @ ''Effect } '' @ old_import config"

definition step1_import :: "effect_config \<Rightarrow> string \<Rightarrow> string" where
  "step1_import config content = replace (old_import_line config) (new_import config) content"

text \<open>Step 2: replace the state declaration.\<close>

definition old_state :: string where
  "old_state = ''  const [activeEffectInstance, setActiveEffectInstance] = useState<any>(null);''"

definition new_state :: "effect_config \<Rightarrow> string" where
  "new_state config =
     ''  const '' @ ref_name config @ '' = useRef<'' @ handle_type config @ '' | null>(null);''"

definition step2_state :: "effect_config \<Rightarrow> string \<Rightarrow> string" where
  "step2_state config content = replace old_state (new_state config) content"

text \<open>
  Step 3: the list \<open>replacements\<close> and the loop \<open>content = re.sub(pattern, replacement,
  content)\<close> over it. Each pattern is literal text once its escapes are read.
\<close>

definition replacements :: "effect_config \<Rightarrow> (re_item list \<times> string) list" where
  "replacements config =
    [([Lit ''activeEffectInstance.play()''], ref_name config @ ''.current?.play()''),
     ([Lit ''activeEffectInstance.pause()''], ref_name config @ ''.current?.pause()''),
     ([Lit ''activeEffectInstance.stop()''], ref_name config @ ''.current?.stop()''),
     ([Lit ''activeEffectInstance.dispose()''], ref_name config @ ''.current?.dispose()''),
     ([Lit ''activeEffectInstance.getConfig()''], ref_name config @ ''.current?.getConfig()''),
     ([Lit ''activeEffectInstance.setRecording(''], ref_name config @ ''.current?.setRecording(''),
     ([Lit ''activeEffectInstance.setConfig(''], ref_name config @ ''.current?.setConfig(''),
     ([Lit ''if (activeEffectInstance)''], ''if ('' @ ref_name config @ ''.current)''),
     ([Lit ''if (!activeEffectInstance)''], ''if (!'' @ ref_name config @ ''.current)''),
     ([Lit ''activeEffectInstance && (''], ref_name config @ ''.current && (''),
     ([Lit ''{activeEffectInstance &&''], ''{'' @ ref_name config @ ''.current &&''),
     ([Lit ''activeEffectInstance?.''], ref_name config @ ''.current?.'')]"

definition step3_references :: "effect_config \<Rightarrow> string \<Rightarrow> string" where
  "step3_references config content =
     fold (\<lambda>(pattern, replacement) c. re_sub pattern replacement c) (replacements config) content"

text \<open>Step 4: the four block patterns, each substituted by the empty string.\<close>

definition old_auto_activate_pattern :: "re_item list" where
  "old_auto_activate_pattern =
    [Lit ''  // Auto-activate effect when context is ready\<newline>'',
     Lit ''  useEffect(() => {'', AnyLazy, Lit ''\<newline>'',
     Lit ''  }, [effectContext, activeEffectInstance, movie]);'']"

definition old_activate_handler_pattern :: "re_item list" where
  "old_activate_handler_pattern =
    [Lit ''  // Handle '', AnyGreedy, Lit '' activation\<newline>'',
     Lit ''  const handleActivateEffect = '', AnyLazy, Lit ''\<newline>'',
     Lit ''  };'']"

definition old_animation_loop_pattern :: "re_item list" where
  "old_animation_loop_pattern =
    [Lit ''  // Animation loop - tick the active effect on every frame\<newline>'',
     Lit ''  useEffect(() => {'', AnyLazy, Lit ''\<newline>'',
     Lit ''  }, ['', AnyLazy, Lit '']);'']"

definition old_autoplay_pattern :: "re_item list" where
  "old_autoplay_pattern =
    [Lit ''  // Auto-play effect when autoplay parameter is present\<newline>'',
     Lit ''  useEffect(() => {'', AnyLazy, Lit ''\<newline>'',
     Lit ''  }, ['', AnyLazy, Lit '']);'']"

definition step4_remove :: "string \<Rightarrow> string" where
  "step4_remove content =
     re_sub old_autoplay_pattern []
       (re_sub old_animation_loop_pattern []
         (re_sub old_activate_handler_pattern []
           (re_sub old_auto_activate_pattern [] content)))"

text \<open>Step 5: the config memo and \<open>handleEffectComplete\<close>, put behind the marker.\<close>

definition insert_marker :: string where
  "insert_marker = ''  }, [solution, movie, from, mode]);''"

definition initial_config :: "string \<Rightarrow> effect_config \<Rightarrow> string" where
  "initial_config effect_key config =
     ''\<newline>''
     @ ''  \<newline>''
     @ ''  // Compute initial '' @ effect_key @ '' config (used by Movie'' @ effect_name config @ ''Player)\<newline>''
     @ ''  const initial'' @ effect_name config @ ''Config: '' @ config_type config @ '' = useMemo(() => {\<newline>''
     @ ''    const baseConfig = movie?.effect_config || '' @ default_config config @ '';\<newline>''
     @ ''    return {\<newline>''
     @ ''      ...baseConfig,\<newline>''
     @ ''      preserveControls: true,\<newline>''
     @ ''    };\<newline>''
     @ ''  }, [movie]);\<newline>''
     @ ''\<newline>''
     @ ''  // Handle '' @ effect_name config @ ''Effect completion (replaces setOnComplete)\<newline>''
     @ ''  const handleEffectComplete = () => {\<newline>''
     @ ''    const currentRecordingState = recordingStatusRef.current.state;\<newline>''
     @ ''    console.log('' @ [CHR 0x27] @ [CHR 0xF0, CHR 0x9F, CHR 0x8E, CHR 0xAC] @ '' '' @ effect_name config @ '' effect completed. Recording state:', currentRecordingState);\<newline>''
     @ ''    setIsPlaying(false);\<newline>''
     @ ''    \<newline>''
     @ ''    // Capture thumbnail when effect completes (if not already captured)\<newline>''
     @ ''    if (!thumbnailBlob && canvas && mode !== 'view') {\<newline>''
     @ ''      requestAnimationFrame(() => requestAnimationFrame(() => {\<newline>''
     @ ''        import('../../services/thumbnailService').then(({ captureCanvasScreenshot }) => {\<newline>''
     @ ''          captureCanvasScreenshot(canvas).then(blob => {\<newline>''
     @ ''            setThumbnailBlob(blob);\<newline>''
     @ ''          }).catch(err => {\<newline>''
     @ ''            console.error('' @ [CHR 0x27] @ [CHR 0xE2, CHR 0x9D, CHR 0x8C] @ '' Failed to capture thumbnail:', err);\<newline>''
     @ ''          });\<newline>''
     @ ''        });\<newline>''
     @ ''      }));\<newline>''
     @ ''    }\<newline>''
     @ ''    \<newline>''
     @ ''    // If recording, stop it and trigger download\<newline>''
     @ ''    if (currentRecordingState === 'recording') {\<newline>''
     @ ''      console.log('' @ [CHR 0x27] @ [CHR 0xF0, CHR 0x9F, CHR 0x8E, CHR 0xAC] @ '' Effect complete during recording - stopping recording...');\<newline>''
     @ ''      handleStopRecordingAndDownload();\<newline>''
     @ ''    } else {\<newline>''
     @ ''      // Show appropriate post-playback modal after 3 second delay\<newline>''
     @ ''      setTimeout(() => {\<newline>''
     @ ''        if (from === 'gallery') {\<newline>''
     @ ''          setShowWhatsNext(true);\<newline>''
     @ ''        } else if (from === 'share') {\<newline>''
     @ ''          setShowShareWelcome(true);\<newline>''
     @ ''        } else if (movie) {\<newline>''
     @ ''          // Viewing a saved movie directly - show What's Next\<newline>''
     @ ''          setShowWhatsNext(true);\<newline>''
     @ ''        } else if (mode === 'create') {\<newline>''
     @ ''          // Creating a new movie from manual solver - go directly to What's Next\<newline>''
     @ ''          setShowWhatsNext(true);\<newline>''
     @ ''        }\<newline>''
     @ ''      }, 3000);\<newline>''
     @ ''    }\<newline>''
     @ ''  };\<newline>''"

definition step5_config_memo :: "string \<Rightarrow> effect_config \<Rightarrow> string \<Rightarrow> string" where
  "step5_config_memo effect_key config content =
     (if str_in insert_marker content
      then replace insert_marker (insert_marker @ initial_config effect_key config) content
      else content)"

text \<open>Step 6: the headless controller JSX, put in place of the canvas marker.\<close>

definition canvas_marker :: string where
  "canvas_marker = ''        )}\<newline>''
     @ ''        \<newline>''
     @ ''        {/* Reveal / Explosion Sliders''"

definition controller_jsx :: "string \<Rightarrow> effect_config \<Rightarrow> string" where
  "controller_jsx effect_key config =
     ''        )}\<newline>''
     @ ''\<newline>''
     @ ''        {/* Headless '' @ effect_key @ '' controller (no visual) */}\<newline>''
     @ ''        {effectContext && (\<newline>''
     @ ''          <Movie'' @ effect_name config @ ''Player\<newline>''
     @ ''            ref={'' @ ref_name config @ ''}\<newline>''
     @ ''            effectContext={effectContext}\<newline>''
     @ ''            baseConfig={initial'' @ effect_name config @ ''Config}\<newline>''
     @ ''            autoplay={autoplay}\<newline>''
     @ ''            loop={false}\<newline>''
     @ ''            onComplete={handleEffectComplete}\<newline>''
     @ ''          />\<newline>''
     @ ''        )}\<newline>''
     @ ''        \<newline>''
     @ ''        {/* Reveal / Explosion Sliders''"

definition step6_controller :: "string \<Rightarrow> effect_config \<Rightarrow> string \<Rightarrow> string" where
  "step6_controller effect_key config content =
     (if str_in canvas_marker content
      then replace canvas_marker (controller_jsx effect_key config) content
      else content)"

text \<open>The content \<open>refactor_file\<close> compares with the original and writes back.\<close>

definition refactor_content :: "string \<Rightarrow> effect_config \<Rightarrow> string \<Rightarrow> string" where
  "refactor_content effect_key config content =
     step6_controller effect_key config
       (step5_config_memo effect_key config
         (step4_remove
           (step3_references config
             (step2_state config
               (step1_import config content)))))"

subsection \<open>\<open>refactor_file\<close> and \<open>main\<close>\<close>

text \<open>
  A \<open>Path\<close> is the list of its components; \<open>p / name\<close> appends one and \<open>p.name\<close> is
  the last. \<open>refactor_file\<close> returns the store and its boolean result, on a store
  of decoded texts.
\<close>

type_synonym path = "string list"

definition path_name :: "path \<Rightarrow> string" where
  "path_name p = (if p = [] then [] else last p)"

definition refactor_file ::
  "path store \<Rightarrow> path \<Rightarrow> string \<Rightarrow> py_error + (path store \<times> bool)" where
  "refactor_file fs filepath effect_key =
     (case fs filepath of
        None \<Rightarrow> Inr (fs, False)
      | Some original_content \<Rightarrow>
          (case EFFECTS effect_key of
             None \<Rightarrow> Inl KeyError
           | Some config \<Rightarrow>
               (let content = refactor_content effect_key config original_content
                in if content = original_content then Inr (fs, False)
                   else Inr (fs(filepath \<mapsto> content), True))))"

definition files_to_refactor :: "path \<Rightarrow> (path \<times> string) list" where
  "files_to_refactor base_path =
    [(base_path @ [''TurntableMoviePage.tsx''], ''turntable''),
     (base_path @ [''RevealMoviePage.tsx''], ''reveal''),
     (base_path @ [''OrbitMoviePage.tsx''], ''orbit''),
     (base_path @ [''ExplosionMoviePage.tsx''], ''explosion'')]"

text \<open>
  \<open>main\<close> runs on the files as they are on disk: a file that exists either decodes as
  UTF-8 to a text or it does not, and then \<open>filepath.read_text(encoding='utf-8')\<close> raises.
  \<open>refactor_file_on_disk\<close> is \<open>refactor_file\<close> with that read written out: the check
  that the path exists, the lookup of the rule, the read, the six steps, the comparison
  and the write. Nothing in \<open>refactor_file\<close> or \<open>main\<close> catches an exception.
\<close>

datatype disk_file = Text string | Undecodable

type_synonym disk = "path \<rightharpoonup> disk_file"

definition read_text :: "disk_file \<Rightarrow> py_error + string" where
  "read_text f = (case f of Text t \<Rightarrow> Inr t | Undecodable \<Rightarrow> Inl UnicodeDecodeError)"

definition refactor_file_on_disk ::
  "disk \<Rightarrow> path \<Rightarrow> string \<Rightarrow> py_error + (disk \<times> bool)" where
  "refactor_file_on_disk d filepath effect_key =
     (case d filepath of
        None \<Rightarrow> Inr (d, False)
      | Some f \<Rightarrow>
          (case EFFECTS effect_key of
             None \<Rightarrow> Inl KeyError
           | Some config \<Rightarrow>
               (case read_text f of
                  Inl e \<Rightarrow> Inl e
                | Inr original_content \<Rightarrow>
                    (let content = refactor_content effect_key config original_content
                     in if content = original_content then Inr (d, False)
                        else Inr (d(filepath \<mapsto> Text content), True)))))"

text \<open>The loop \<open>for filepath, effect_key in files_to_refactor\<close> with its \<open>results\<close>.\<close>

fun refactor_loop ::
  "(path \<times> string) list \<Rightarrow> disk \<Rightarrow> (string \<times> bool) list
     \<Rightarrow> py_error + (disk \<times> (string \<times> bool) list)" where
  "refactor_loop [] d results = Inr (d, results)"
| "refactor_loop ((filepath, effect_key) # rest) d results =
     (case refactor_file_on_disk d filepath effect_key of
        Inl e \<Rightarrow> Inl e
      | Inr (d', success) \<Rightarrow>
          refactor_loop rest d' (results @ [(path_name filepath, success)]))"

text \<open>
  The summary that \<open>main\<close> prints after the loop, one string for each \<open>print\<close>: the
  header, the line \<open>f"{status}: {filename}"\<close> of every result, and the closing rule.
\<close>

definition summary_line :: "string \<times> bool \<Rightarrow> string" where
  "summary_line r =
     (if snd r then [CHR 0xE2, CHR 0x9C, CHR 0x85] @ '' SUCCESS''
      else [CHR 0xE2, CHR 0x9D, CHR 0x8C] @ '' FAILED'') @ '': '' @ fst r"

definition summary :: "(string \<times> bool) list \<Rightarrow> string list" where
  "summary results =
     [CHR 0x0A # replicate 60 (CHR ''=''), ''SUMMARY'', replicate 60 (CHR ''='')]
     @ map summary_line results
     @ [replicate 60 (CHR ''='') @ [CHR 0x0A]]"

text \<open>
  \<open>main\<close>, with the directory of the script as a parameter: the final disk, the list
  \<open>results\<close> and the printed summary. An exception out of \<open>refactor_file\<close> ends the run
  before the summary.
\<close>

definition main_refactor ::
  "path \<Rightarrow> disk \<Rightarrow> py_error + (disk \<times> (string \<times> bool) list \<times> string list)" where
  "main_refactor script_dir d =
     (case refactor_loop (files_to_refactor (script_dir @ [''src'', ''pages'', ''movies''])) d [] of
        Inl e \<Rightarrow> Inl e
      | Inr (d', results) \<Rightarrow> Inr (d', results, summary results))"

subsection \<open>Notions used to state the properties\<close>

text \<open>
  Two strings clash when one is a prefix of the other. \<open>apart q p\<close>: no non-empty
  suffix of \<open>q\<close> clashes with \<open>p\<close>, so in no text does an occurrence of \<open>p\<close> start on a
  character of an occurrence of \<open>q\<close>.
\<close>

definition clash :: "string \<Rightarrow> string \<Rightarrow> bool" where
  "clash w p \<longleftrightarrow> prefix w p \<or> prefix p w"

fun apart :: "string \<Rightarrow> string \<Rightarrow> bool" where
  "apart [] p = True"
| "apart (c # cs) p = (\<not> clash (c # cs) p \<and> apart cs p)"

text \<open>
  \<open>s.split(sep)\<close> for a non-empty separator, and \<open>sep.join(parts)\<close>: the pieces of
  the text between the occurrences that \<open>replace\<close> finds.
\<close>

fun split_str :: "string \<Rightarrow> string \<Rightarrow> string list" where
  "split_str sep [] = [[]]"
| "split_str sep (c # cs) =
     (if prefix sep (c # cs) then [] # split_str sep (drop (length sep - 1) cs)
      else (case split_str sep cs of [] \<Rightarrow> [[c]] | g # gs \<Rightarrow> (c # g) # gs))"

fun join_str :: "string \<Rightarrow> string list \<Rightarrow> string" where
  "join_str sep [] = []"
| "join_str sep [g] = g"
| "join_str sep (g # g' # gs) = g @ sep @ join_str sep (g' # gs)"

text \<open>The controller JSX without the canvas marker that ends it.\<close>

definition controller_head :: "string \<Rightarrow> effect_config \<Rightarrow> string" where
  "controller_head effect_key config =
     ''        )}\<newline>''
     @ ''\<newline>''
     @ ''        {/* Headless '' @ effect_key @ '' controller (no visual) */}\<newline>''
     @ ''        {effectContext && (\<newline>''
     @ ''          <Movie'' @ effect_name config @ ''Player\<newline>''
     @ ''            ref={'' @ ref_name config @ ''}\<newline>''
     @ ''            effectContext={effectContext}\<newline>''
     @ ''            baseConfig={initial'' @ effect_name config @ ''Config}\<newline>''
     @ ''            autoplay={autoplay}\<newline>''
     @ ''            loop={false}\<newline>''
     @ ''            onComplete={handleEffectComplete}\<newline>''
     @ ''          />\<newline>''"

text \<open>No step of the rule finds its anchor, pattern or marker in the content.\<close>

definition no_step_matches :: "effect_config \<Rightarrow> string \<Rightarrow> bool" where
  "no_step_matches config s \<longleftrightarrow>
     \<not> str_in (old_import_line config) s
   \<and> \<not> str_in old_state s
   \<and> list_all (\<lambda>(pat, r). \<not> re_search pat s) (replacements config)
   \<and> \<not> re_search old_auto_activate_pattern s
   \<and> \<not> re_search old_activate_handler_pattern s
   \<and> \<not> re_search old_animation_loop_pattern s
   \<and> \<not> re_search old_autoplay_pattern s
   \<and> \<not> str_in insert_marker s
   \<and> \<not> str_in canvas_marker s"

section \<open>Facts about the deletion engine\<close>

lemma mark_range_eq: "mark_range r S = S \<union> {fst r - 1 .. fst (snd r) - 1}"
proof -
  have "fold insert xs S = S \<union> set xs" for xs :: "int list"
    by (induction xs arbitrary: S) auto
  then show ?thesis by (cases r) simp
qed

lemma fold_mark_range:
  "fold mark_range rs S = S \<union> (\<Union>r \<in> set rs. {fst r - 1 .. fst (snd r) - 1})"
  by (induction rs arbitrary: S) (auto simp: mark_range_eq simp del: mark_range.simps)

lemma lines_to_delete_iff:
  "i \<in> lines_to_delete rs \<longleftrightarrow> (\<exists>r \<in> set rs. fst r - 1 \<le> i \<and> i < fst (snd r))"
  by (auto simp: lines_to_delete_def fold_mark_range)

lemma kept_interval:
  assumes "a \<le> b" and "b \<le> length ls"
    and "\<And>i. i < length ls \<Longrightarrow> int i \<in> lines_to_delete rs \<longleftrightarrow> a \<le> i \<and> i < b"
  shows "kept_lines rs ls = take a ls @ drop b ls"
proof -
  let ?P = "\<lambda>(i :: nat, line :: string). int i \<notin> lines_to_delete rs"
  have split: "ls = take a ls @ take (b - a) (drop a ls) @ drop b ls"
    using assms(1) by (metis append_take_drop_id drop_drop le_add_diff_inverse2)
  have la: "length (take a ls) = a" using assms by simp
  have lb: "length (take (b - a) (drop a ls)) = b - a" using assms by simp
  have e: "enumerate 0 ls = enumerate 0 (take a ls)
      @ enumerate a (take (b - a) (drop a ls)) @ enumerate b (drop b ls)"
    using assms(1) by (subst split) (simp only: enumerate_append_eq la lb, simp)
  have f1: "filter ?P (enumerate 0 (take a ls)) = enumerate 0 (take a ls)"
    using assms by (intro filter_True) (auto simp: in_set_enumerate_eq)
  have f2: "filter ?P (enumerate a (take (b - a) (drop a ls))) = []"
    using assms by (intro filter_False) (auto simp: in_set_enumerate_eq)
  have f3: "filter ?P (enumerate b (drop b ls)) = enumerate b (drop b ls)"
    using assms by (intro filter_True) (auto simp: in_set_enumerate_eq)
  show ?thesis
    unfolding kept_lines_def by (subst e) (simp only: filter_append f1 f2 f3, simp)
qed

lemma kept_lines_cong:
  assumes "\<And>i. i < length ls \<Longrightarrow>
      int i \<in> lines_to_delete rs \<longleftrightarrow> int i \<in> lines_to_delete rs'"
  shows "kept_lines rs ls = kept_lines rs' ls"
  unfolding kept_lines_def
  by (intro arg_cong[where f = "map snd"] filter_cong refl)
     (use assms in \<open>auto simp: in_set_enumerate_eq\<close>)

lemma kept_lines_subseq: "subseq (kept_lines rs ls) ls"
proof -
  have "subseq (map snd (filter P (enumerate 0 ls))) (map snd (enumerate 0 ls))"
    for P :: "nat \<times> string \<Rightarrow> bool"
    by (intro subseq_map subseq_filter_left)
  then show ?thesis by (simp add: kept_lines_def)
qed

section \<open>Facts about the text transformer\<close>

subsection \<open>Substring search and replacement\<close>

lemma str_in_Nil [simp]: "str_in [] s"
  by (cases s) simp_all

lemma str_in_prefix: "prefix p s \<Longrightarrow> str_in p s"
  by (cases s) simp_all

lemma str_in_iff: "str_in p s \<longleftrightarrow> (\<exists>a b. s = a @ p @ b)"
proof (induction s)
  case Nil
  then show ?case by auto
next
  case (Cons c cs)
  show ?case
  proof
    assume "str_in p (c # cs)"
    then consider "prefix p (c # cs)" | "str_in p cs" by auto
    then show "\<exists>a b. c # cs = a @ p @ b"
    proof cases
      case 1
      then obtain b where "c # cs = p @ b" by (auto simp: prefix_def)
      then have "c # cs = [] @ p @ b" by simp
      then show ?thesis by blast
    next
      case 2
      with Cons.IH obtain a b where "cs = a @ p @ b" by blast
      then have "c # cs = (c # a) @ p @ b" by simp
      then show ?thesis by blast
    qed
  next
    assume "\<exists>a b. c # cs = a @ p @ b"
    then obtain a b where ab: "c # cs = a @ p @ b" by blast
    show "str_in p (c # cs)"
    proof (cases a)
      case Nil
      with ab have "prefix p (c # cs)" by (simp add: prefix_def)
      then show ?thesis by (rule str_in_prefix)
    next
      case (Cons x a')
      with ab have "cs = a' @ p @ b" by simp
      with Cons.IH show ?thesis by auto
    qed
  qed
qed

lemma str_in_append_left: "str_in p s \<Longrightarrow> str_in p (a @ s)"
  by (induction a) auto

lemma str_in_self_append: "str_in p (p @ s)"
  by (rule str_in_prefix) simp

lemma str_in_part: "str_in p s \<Longrightarrow> str_in q p \<Longrightarrow> str_in q s"
proof -
  assume "str_in p s" and "str_in q p"
  then obtain a b a' b' where "s = a @ p @ b" and "p = a' @ q @ b'"
    by (auto simp: str_in_iff)
  then have "s = (a @ a') @ q @ (b' @ b)" by simp
  then show ?thesis unfolding str_in_iff by blast
qed

lemma replace_from_absent: "\<not> str_in old s \<Longrightarrow> replace_from old new s = s"
  by (induction s) auto

lemma replace_absent: "\<not> str_in old s \<Longrightarrow> replace old new s = s"
  by (cases "old = []") (auto simp: replace_def replace_from_absent)

lemma replace_from_present:
  "old \<noteq> [] \<Longrightarrow> str_in old s \<Longrightarrow> str_in new (replace_from old new s)"
proof (induction old new s rule: replace_from.induct)
  case (1 old new)
  then show ?case by simp
next
  case (2 old new c cs)
  show ?case
  proof (cases "prefix old (c # cs)")
    case True
    then show ?thesis by (simp add: str_in_self_append)
  next
    case False
    with 2 have "str_in new (replace_from old new cs)" by simp
    then have "str_in new ([c] @ replace_from old new cs)" by (rule str_in_append_left)
    with False show ?thesis by simp
  qed
qed

lemma replace_present: "str_in old s \<Longrightarrow> str_in new (replace old new s)"
  by (cases "old = []") (auto simp: replace_def replace_from_present str_in_self_append)

lemma count_str_absent: "\<not> str_in old s \<Longrightarrow> count_str old s = 0"
  by (induction s) auto

subsection \<open>The matcher\<close>

lemma re_match_Lit: "re_match [Lit p] s = (if prefix p s then Some (drop (length p) s) else None)"
  by simp

lemma drop_prefix_Cons: "p \<noteq> [] \<Longrightarrow> drop (length p) (c # cs) = drop (length p - 1) cs"
  by (cases p) simp_all

lemma re_sub_Lit: "p \<noteq> [] \<Longrightarrow> re_sub [Lit p] r s = replace_from p r s"
proof (induction p r s rule: replace_from.induct)
  case (1 old new)
  then show ?case by (simp add: prefix_def)
next
  case (2 old new c cs)
  then show ?case by (simp add: drop_prefix_Cons less_Suc_eq_le)
qed

lemma re_sub_no_match: "\<not> re_search pat s \<Longrightarrow> re_sub pat repl s = s"
  by (induction s) auto

lemma re_search_Lit_first: "re_search (Lit l # ts) s \<Longrightarrow> str_in l s"
  by (induction s) (auto split: if_splits)

lemma re_search_Lit: "p \<noteq> [] \<Longrightarrow> re_search [Lit p] s = str_in p s"
  by (induction s) (auto simp: prefix_def)

lemma apart_suffix: "apart q p \<Longrightarrow> q = u @ w \<Longrightarrow> w \<noteq> [] \<Longrightarrow> \<not> clash w p"
proof (induction q arbitrary: u)
  case Nil
  then show ?case by simp
next
  case (Cons c cs)
  show ?case
  proof (cases u)
    case Nil
    with Cons.prems show ?thesis by auto
  next
    case (Cons a u')
    with Cons.prems have "cs = u' @ w" and "apart cs p" by auto
    with Cons.IH Cons.prems(3) show ?thesis by blast
  qed
qed

lemma apart_tl_suffix:
  "apart (tl q) p \<Longrightarrow> q = u @ w \<Longrightarrow> u \<noteq> [] \<Longrightarrow> w \<noteq> [] \<Longrightarrow> \<not> clash w p"
proof -
  assume a: "apart (tl q) p" and q: "q = u @ w" and u: "u \<noteq> []" and w: "w \<noteq> []"
  from u q have t: "tl q = tl u @ w" by simp
  show ?thesis by (rule apart_suffix[OF a t w])
qed

lemma prefix_cut:
  assumes "prefix q (u @ y)" and "\<not> prefix q u"
  obtains w where "w \<noteq> []" and "q = u @ w" and "prefix w y"
proof -
  from assms obtain us where us: "q = u @ us" "prefix us y"
    by (auto simp: prefix_append)
  with assms(2) have "us \<noteq> []" by auto
  with us that show ?thesis by blast
qed

lemma prefix_append_clash: "prefix w (r @ x) \<Longrightarrow> clash w r"
  by (auto simp: clash_def prefix_append)

lemma prefix_same_clash: "prefix w s \<Longrightarrow> prefix p s \<Longrightarrow> clash w p"
  unfolding clash_def by (rule prefix_same_cases)

text \<open>
  Replacing \<open>p\<close> by \<open>r\<close> behind a non-empty stretch \<open>u\<close> does not change whether \<open>q\<close>
  starts at the beginning of \<open>u\<close>, when no proper suffix of \<open>q\<close> clashes with \<open>p\<close> or
  \<open>r\<close>.
\<close>

lemma prefix_replace_from:
  "apart (tl q) p \<Longrightarrow> apart (tl q) r \<Longrightarrow> u \<noteq> []
     \<Longrightarrow> prefix q (u @ replace_from p r t) = prefix q (u @ t)"
proof (induction p r t arbitrary: u rule: replace_from.induct)
  case (1 old new)
  show ?case by simp
next
  case (2 old new c cs)
  show ?case
  proof (cases "prefix old (c # cs)")
    case True
    let ?x = "replace_from old new (drop (length old - 1) cs)"
    show ?thesis
    proof (cases "prefix q u")
      case True
      then show ?thesis by (simp add: prefix_append)
    next
      case nu: False
      have l: "\<not> prefix q (u @ new @ ?x)"
      proof
        assume "prefix q (u @ new @ ?x)"
        from this nu obtain w where w: "w \<noteq> []" "q = u @ w" "prefix w (new @ ?x)"
          by (rule prefix_cut)
        from w(3) have "clash w new" by (rule prefix_append_clash)
        moreover have "\<not> clash w new"
          using "2.prems"(2) w(2) "2.prems"(3) w(1) by (rule apart_tl_suffix)
        ultimately show False by simp
      qed
      have r: "\<not> prefix q (u @ c # cs)"
      proof
        assume "prefix q (u @ c # cs)"
        from this nu obtain w where w: "w \<noteq> []" "q = u @ w" "prefix w (c # cs)"
          by (rule prefix_cut)
        from w(3) True have "clash w old" by (rule prefix_same_clash)
        moreover have "\<not> clash w old"
          using "2.prems"(1) w(2) "2.prems"(3) w(1) by (rule apart_tl_suffix)
        ultimately show False by simp
      qed
      from l r True show ?thesis by simp
    qed
  next
    case False
    have "prefix q ((u @ [c]) @ replace_from old new cs) = prefix q ((u @ [c]) @ cs)"
      using False "2.prems"(1,2) by (intro "2.IH"(2)) simp_all
    with False show ?thesis by simp
  qed
qed

lemma prefix_append_clash': "prefix p (v @ x) \<Longrightarrow> clash v p"
  by (auto simp: clash_def prefix_append)

lemma str_in_skip: "apart v p \<Longrightarrow> p \<noteq> [] \<Longrightarrow> str_in p (v @ x) = str_in p x"
proof (induction v)
  case Nil
  then show ?case by simp
next
  case (Cons a v)
  have "\<not> prefix p ((a # v) @ x)"
    using Cons.prems(1) prefix_append_clash'[of p "a # v" x] by auto
  with Cons show ?case by simp
qed

text \<open>After the replacement no occurrence of \<open>p\<close> is left, when occurrences of \<open>p\<close>
  cannot overlap each other or the replacement text.\<close>

lemma replace_from_gone:
  "p \<noteq> [] \<Longrightarrow> apart (tl p) p \<Longrightarrow> apart (tl p) r \<Longrightarrow> apart r p
     \<Longrightarrow> \<not> str_in p (replace_from p r s)"
proof (induction p r s rule: replace_from.induct)
  case (1 old new)
  then show ?case by simp
next
  case (2 old new c cs)
  show ?case
  proof (cases "prefix old (c # cs)")
    case True
    with 2 have "\<not> str_in old (replace_from old new (drop (length old - 1) cs))" by simp
    with True "2.prems" show ?thesis by (simp add: str_in_skip)
  next
    case False
    with 2 have ih: "\<not> str_in old (replace_from old new cs)" by simp
    have "prefix old ([c] @ replace_from old new cs) = prefix old ([c] @ cs)"
      using "2.prems"(2,3) by (intro prefix_replace_from) simp_all
    with False ih show ?thesis by simp
  qed
qed

lemma count_str_skip: "apart v r \<Longrightarrow> r \<noteq> [] \<Longrightarrow> count_str r (v @ x) = count_str r x"
proof (induction v)
  case Nil
  then show ?case by simp
next
  case (Cons a v)
  have "\<not> prefix r ((a # v) @ x)"
    using Cons.prems(1) prefix_append_clash'[of r "a # v" x] by auto
  with Cons show ?case by simp
qed

lemma count_str_self: "r \<noteq> [] \<Longrightarrow> count_str r (r @ x) = Suc (count_str r x)"
  by (cases r) simp_all

lemma count_str_Cons:
  assumes "apart (tl r) r" and "r \<noteq> []"
  shows "count_str r (c # y) = (if prefix r (c # y) then Suc (count_str r y) else count_str r y)"
proof (cases "prefix r (c # y)")
  case True
  then obtain z where z: "c # y = r @ z" by (auto simp: prefix_def)
  with assms(2) have y: "y = tl r @ z" by (cases r) auto
  have "count_str r (c # y) = Suc (count_str r z)"
    unfolding z using assms(2) by (rule count_str_self)
  moreover have "count_str r y = count_str r z"
    unfolding y using assms by (rule count_str_skip)
  ultimately show ?thesis using True by simp
next
  case False
  then show ?thesis by simp
qed

text \<open>Every replacement adds one occurrence of \<open>r\<close> and nothing else changes their
  number, when occurrences of \<open>r\<close> and \<open>p\<close> cannot overlap.\<close>

lemma count_str_replace_from:
  "p \<noteq> [] \<Longrightarrow> r \<noteq> [] \<Longrightarrow> apart (tl r) r \<Longrightarrow> apart (tl r) p \<Longrightarrow> apart p r
     \<Longrightarrow> count_str r (replace_from p r s) = count_str p s + count_str r s"
proof (induction p r s rule: replace_from.induct)
  case (1 old new)
  then show ?case by simp
next
  case (2 old new c cs)
  show ?case
  proof (cases "prefix old (c # cs)")
    case True
    let ?t = "drop (length old - 1) cs"
    from True obtain z where z: "c # cs = old @ z" by (auto simp: prefix_def)
    with "2.prems"(1) have t: "?t = z" by (cases old) auto
    have ih: "count_str new (replace_from old new ?t) = count_str old ?t + count_str new ?t"
      using True "2.prems" by (intro "2.IH"(1)) simp_all
    have "count_str new (c # cs) = count_str new z"
      unfolding z using "2.prems"(5,2) by (rule count_str_skip)
    with True ih t "2.prems"(2) show ?thesis by (simp add: count_str_self)
  next
    case False
    have ih: "count_str new (replace_from old new cs) = count_str old cs + count_str new cs"
      using False "2.prems" by (intro "2.IH"(2)) simp_all
    have pf: "prefix new ([c] @ replace_from old new cs) = prefix new ([c] @ cs)"
      using "2.prems"(4,3) by (intro prefix_replace_from) simp_all
    then have pf': "prefix new (c # replace_from old new cs) = prefix new (c # cs)"
      by simp
    have a: "count_str new (c # replace_from old new cs)
        = (if prefix new (c # replace_from old new cs)
           then Suc (count_str new (replace_from old new cs))
           else count_str new (replace_from old new cs))"
      by (rule count_str_Cons[OF "2.prems"(3,2)])
    have b: "count_str new (c # cs)
        = (if prefix new (c # cs) then Suc (count_str new cs) else count_str new cs)"
      by (rule count_str_Cons[OF "2.prems"(3,2)])
    have r0: "replace_from old new (c # cs) = c # replace_from old new cs"
      using False by simp
    have c0: "count_str old (c # cs) = count_str old cs"
      using False by simp
    show ?thesis
      unfolding r0 c0 a b pf' using ih by simp
  qed
qed

subsection \<open>Replacement as split and join\<close>

lemma split_str_not_Nil: "split_str sep s \<noteq> []"
  by (induction sep s rule: split_str.induct) (auto split: list.splits)

lemma join_str_Cons: "gs \<noteq> [] \<Longrightarrow> join_str sep (g # gs) = g @ sep @ join_str sep gs"
  by (cases gs) simp_all

lemma join_str_Cons_first:
  "gs \<noteq> [] \<Longrightarrow> join_str sep ((c # hd gs) # tl gs) = c # join_str sep gs"
  by (cases gs; cases "tl gs") auto

lemma replace_from_split:
  "sep \<noteq> [] \<Longrightarrow> replace_from sep new s = join_str new (split_str sep s)"
proof (induction sep s rule: split_str.induct)
  case (1 sep)
  then show ?case by simp
next
  case (2 sep c cs)
  show ?case
  proof (cases "prefix sep (c # cs)")
    case True
    with 2 show ?thesis by (simp add: join_str_Cons split_str_not_Nil)
  next
    case False
    obtain g gs where g: "split_str sep cs = g # gs"
      using split_str_not_Nil[of sep cs] by (cases "split_str sep cs") auto
    have "join_str new ((c # g) # gs) = c # join_str new (g # gs)"
      using join_str_Cons_first[of "g # gs" new c] by simp
    with False 2 g show ?thesis by simp
  qed
qed

lemma join_split_str: "sep \<noteq> [] \<Longrightarrow> join_str sep (split_str sep s) = s"
proof (induction sep s rule: split_str.induct)
  case (1 sep)
  then show ?case by simp
next
  case (2 sep c cs)
  show ?case
  proof (cases "prefix sep (c # cs)")
    case True
    then obtain z where z: "c # cs = sep @ z" by (auto simp: prefix_def)
    with "2.prems" have t: "drop (length sep - 1) cs = z" by (cases sep) auto
    from True 2 t have ih: "join_str sep (split_str sep z) = z" by simp
    have s: "split_str sep (c # cs) = [] # split_str sep z"
      using True t by simp
    show ?thesis
      unfolding s using ih z by (simp add: join_str_Cons split_str_not_Nil)
  next
    case False
    obtain g gs where g: "split_str sep cs = g # gs"
      using split_str_not_Nil[of sep cs] by (cases "split_str sep cs") auto
    have "join_str sep ((c # g) # gs) = c # join_str sep (g # gs)"
      using join_str_Cons_first[of "g # gs" sep c] by simp
    with False 2 g show ?thesis by simp
  qed
qed

lemma length_split_str: "length (split_str sep s) = Suc (count_str sep s)"
  by (induction sep s rule: split_str.induct) (auto split: list.splits simp: split_str_not_Nil)

subsection \<open>Steps whose anchor is absent\<close>

lemma step1_absent: "\<not> str_in (old_import_line config) s \<Longrightarrow> step1_import config s = s"
  by (simp add: step1_import_def replace_absent)

lemma step2_absent: "\<not> str_in old_state s \<Longrightarrow> step2_state config s = s"
  by (simp add: step2_state_def replace_absent)

lemma fold_re_sub_absent:
  "(\<forall>(pat, r) \<in> set ps. \<not> re_search pat s)
     \<Longrightarrow> fold (\<lambda>(pattern, replacement) c. re_sub pattern replacement c) ps s = s"
  by (induction ps) (auto simp: re_sub_no_match)

lemma step3_absent:
  "(\<forall>(pat, r) \<in> set (replacements config). \<not> re_search pat s)
     \<Longrightarrow> step3_references config s = s"
  unfolding step3_references_def by (rule fold_re_sub_absent)

lemma step4_absent:
  "\<not> re_search old_auto_activate_pattern s \<Longrightarrow> \<not> re_search old_activate_handler_pattern s
     \<Longrightarrow> \<not> re_search old_animation_loop_pattern s \<Longrightarrow> \<not> re_search old_autoplay_pattern s
     \<Longrightarrow> step4_remove s = s"
  by (simp add: step4_remove_def re_sub_no_match)

lemma step5_absent: "\<not> str_in insert_marker s \<Longrightarrow> step5_config_memo key config s = s"
  by (simp add: step5_config_memo_def)

lemma step6_absent: "\<not> str_in canvas_marker s \<Longrightarrow> step6_controller key config s = s"
  by (simp add: step6_controller_def)

text \<open>Every anchor of steps 2 and 3 contains the old instance name, and every block
  pattern of step 4 starts with an indented line comment.\<close>

lemma no_instance_name_step2:
  assumes "\<not> str_in ''activeEffectInstance'' s"
  shows "step2_state config s = s"
proof -
  have "str_in ''activeEffectInstance'' old_state"
    by (simp add: old_state_def)
  with assms have "\<not> str_in old_state s"
    using str_in_part by blast
  then show ?thesis by (rule step2_absent)
qed

lemma no_instance_name_step3:
  assumes "\<not> str_in ''activeEffectInstance'' s"
  shows "step3_references config s = s"
proof -
  have lit: "\<not> re_search [Lit l] s" if "str_in ''activeEffectInstance'' l" for l
    using that assms re_search_Lit_first str_in_part by blast
  have "\<forall>(pat, r) \<in> set (replacements config). \<not> re_search pat s"
    unfolding replacements_def by (simp add: lit)
  then show ?thesis by (rule step3_absent)
qed

lemma no_comment_step4:
  assumes "\<not> str_in ''  // '' s"
  shows "step4_remove s = s"
proof -
  have lit: "\<not> re_search (Lit l # ts) s" if "str_in ''  // '' l" for l ts
    using that assms re_search_Lit_first str_in_part by blast
  show ?thesis
    by (rule step4_absent)
       (simp_all add: old_auto_activate_pattern_def old_activate_handler_pattern_def
          old_animation_loop_pattern_def old_autoplay_pattern_def lit)
qed

lemma no_import_step1:
  assumes "\<not> str_in ''import { '' s"
  shows "step1_import config s = s"
proof -
  have "str_in ''import { '' (old_import_line config)"
    unfolding old_import_line_def by (rule str_in_prefix) simp
  with assms have "\<not> str_in (old_import_line config) s"
    using str_in_part by blast
  then show ?thesis by (rule step1_absent)
qed

subsection \<open>The rule table\<close>

lemma EFFECTS_cases:
  assumes "EFFECTS effect_key = Some config"
  obtains "effect_key = ''turntable''" "config = turntable_config"
  | "effect_key = ''reveal''" "config = reveal_config"
  | "effect_key = ''orbit''" "config = orbit_config"
  | "effect_key = ''explosion''" "config = explosion_config"
  using assms by (auto simp: EFFECTS_def split: if_splits)

subsection \<open>\<open>refactor_file\<close> and the loop of \<open>main\<close>\<close>

lemma refactor_file_missing: "fs filepath = None \<Longrightarrow> refactor_file fs filepath key = Inr (fs, False)"
  by (simp add: refactor_file_def)

lemma refactor_file_present:
  "fs filepath = Some original \<Longrightarrow> EFFECTS key = Some config \<Longrightarrow>
   refactor_file fs filepath key =
     (if refactor_content key config original = original then Inr (fs, False)
      else Inr (fs(filepath \<mapsto> refactor_content key config original), True))"
  by (simp add: refactor_file_def Let_def)

lemma refactor_file_on_disk_missing:
  "d filepath = None \<Longrightarrow> refactor_file_on_disk d filepath key = Inr (d, False)"
  by (simp add: refactor_file_on_disk_def)

lemma refactor_file_on_disk_undecodable:
  "d filepath = Some Undecodable \<Longrightarrow> key \<in> dom EFFECTS
     \<Longrightarrow> refactor_file_on_disk d filepath key = Inl UnicodeDecodeError"
  by (auto simp: refactor_file_on_disk_def read_text_def)

lemma refactor_file_on_disk_text:
  "d filepath = Some (Text original) \<Longrightarrow> EFFECTS key = Some config \<Longrightarrow>
   refactor_file_on_disk d filepath key =
     (if refactor_content key config original = original then Inr (d, False)
      else Inr (d(filepath \<mapsto> Text (refactor_content key config original)), True))"
  by (simp add: refactor_file_on_disk_def read_text_def Let_def)

text \<open>On a file that decodes, the function on the disk does what \<open>refactor_file\<close> does
  on the store of decoded texts.\<close>

lemma refactor_file_on_disk_agrees:
  assumes "d filepath = Some (Text original)" and "fs filepath = Some original"
  shows "refactor_file_on_disk d filepath key =
     (case refactor_file fs filepath key of
        Inl e \<Rightarrow> Inl e
      | Inr (fs', b) \<Rightarrow> Inr (if b then d(filepath \<mapsto> Text (the (fs' filepath))) else d, b))"
  using assms
  by (auto simp: refactor_file_on_disk_def refactor_file_def read_text_def Let_def
      split: option.splits)

lemma refactor_file_on_disk_returns:
  assumes "key \<in> dom EFFECTS" and "d filepath \<noteq> Some Undecodable"
  shows "\<exists>d' b. refactor_file_on_disk d filepath key = Inr (d', b)
     \<and> dom d' = dom d
     \<and> (\<forall>q. (d' q = Some Undecodable) = (d q = Some Undecodable))
     \<and> (d filepath = None \<longrightarrow> \<not> b)"
proof (cases "d filepath")
  case None
  then show ?thesis by (auto simp: refactor_file_on_disk_missing)
next
  case (Some f)
  with assms(2) obtain t where t: "d filepath = Some (Text t)"
    by (cases f) auto
  from assms(1) obtain config where c: "EFFECTS key = Some config" by auto
  from t have "dom (d(filepath \<mapsto> Text x)) = dom d" for x by auto
  moreover from t have "((d(filepath \<mapsto> Text x)) q = Some Undecodable) = (d q = Some Undecodable)"
    for x q by auto
  ultimately show ?thesis
    using t by (auto simp: refactor_file_on_disk_text[of d filepath t key config, OF t c])
qed

lemma refactor_loop_readable:
  "\<forall>(p, k) \<in> set files. k \<in> dom EFFECTS \<and> d p \<noteq> Some Undecodable \<Longrightarrow>
   \<exists>d' rs. refactor_loop files d acc = Inr (d', acc @ rs)
     \<and> map fst rs = map (path_name \<circ> fst) files
     \<and> dom d' = dom d
     \<and> (\<forall>i < length files. d (fst (files ! i)) = None \<longrightarrow> \<not> snd (rs ! i))"
proof (induction files arbitrary: d acc)
  case Nil
  then show ?case by simp
next
  case (Cons f files)
  obtain p k where f: "f = (p, k)" by (cases f)
  with Cons.prems have k: "k \<in> dom EFFECTS" and p: "d p \<noteq> Some Undecodable" by simp_all
  from refactor_file_on_disk_returns[of k d p, OF k p]
  obtain d1 b where r: "refactor_file_on_disk d p k = Inr (d1, b)"
    and d1: "dom d1 = dom d"
    and u1: "\<forall>q. (d1 q = Some Undecodable) = (d q = Some Undecodable)"
    and b: "d p = None \<longrightarrow> \<not> b"
    by blast
  from Cons.prems u1 have "\<forall>(p, k) \<in> set files. k \<in> dom EFFECTS \<and> d1 p \<noteq> Some Undecodable"
    by auto
  from Cons.IH[OF this, of "acc @ [(path_name p, b)]"]
  obtain d' rs where ih: "refactor_loop files d1 (acc @ [(path_name p, b)])
        = Inr (d', (acc @ [(path_name p, b)]) @ rs)"
      "map fst rs = map (path_name \<circ> fst) files" "dom d' = dom d1"
      "\<forall>i < length files. d1 (fst (files ! i)) = None \<longrightarrow> \<not> snd (rs ! i)"
    by blast
  have none: "d1 q = None \<longleftrightarrow> d q = None" for q
    using d1 by (metis domIff)
  have "\<forall>i < length (f # files). d (fst ((f # files) ! i)) = None
      \<longrightarrow> \<not> snd (((path_name p, b) # rs) ! i)"
  proof (intro allI impI)
    fix i assume i: "i < length (f # files)" and n: "d (fst ((f # files) ! i)) = None"
    show "\<not> snd (((path_name p, b) # rs) ! i)"
    proof (cases i)
      case 0
      with n f b show ?thesis by simp
    next
      case (Suc j)
      with i n ih(4) none show ?thesis by simp
    qed
  qed
  with ih d1 r f show ?case
    by (intro exI[of _ d'] exI[of _ "(path_name p, b) # rs"]) simp
qed

lemma refactor_loop_aborts:
  "\<forall>(p, k) \<in> set files. k \<in> dom EFFECTS \<Longrightarrow>
   \<exists>(p, k) \<in> set files. d p = Some Undecodable \<Longrightarrow>
   refactor_loop files d acc = Inl UnicodeDecodeError"
proof (induction files arbitrary: d acc)
  case Nil
  then show ?case by simp
next
  case (Cons f files)
  obtain p k where f: "f = (p, k)" by (cases f)
  with Cons.prems have k: "k \<in> dom EFFECTS" by simp
  show ?case
  proof (cases "d p = Some Undecodable")
    case True
    with k f show ?thesis by (simp add: refactor_file_on_disk_undecodable)
  next
    case False
    from refactor_file_on_disk_returns[of k d p, OF k False]
    obtain d1 b where r: "refactor_file_on_disk d p k = Inr (d1, b)"
      and u1: "\<forall>q. (d1 q = Some Undecodable) = (d q = Some Undecodable)"
      by blast
    from Cons.prems(2) f False have "\<exists>(p, k) \<in> set files. d p = Some Undecodable"
      by auto
    with u1 have "\<exists>(p, k) \<in> set files. d1 p = Some Undecodable" by auto
    moreover from Cons.prems(1) have "\<forall>(p, k) \<in> set files. k \<in> dom EFFECTS" by simp
    ultimately have "refactor_loop files d1 (acc @ [(path_name p, b)]) = Inl UnicodeDecodeError"
      by (rule Cons.IH[rotated])
    with r f show ?thesis by simp
  qed
qed

subsection \<open>Rules for evaluating the model on concrete text\<close>

lemma length_Cons_Suc: "length (x # xs) = Suc (length xs)"
  by simp

lemma not_less_zero_nat: "\<not> (n::nat) < 0"
  by simp

lemmas eval_list = append.simps list.inject list.distinct list.case list.sel char.inject
  simp_thms if_True if_False option.case option.distinct option.inject
  Cons_prefix_Cons Nil_prefix prefix_Nil
  list.size(3) length_Cons_Suc diff_Suc_1 diff_0 drop_0 drop_Suc_Cons drop_Nil
  Suc_less_eq zero_less_Suc not_less_zero_nat
  fold.simps comp_apply id_apply prod.case

lemmas eval_str = str_in.simps replace_from.simps count_str.simps re_match.simps re_sub.simps
  re_search.simps split_str.simps join_str.simps apart.simps clash_def

lemmas refactor_defs = refactor_content_def step1_import_def step2_state_def
  step3_references_def step4_remove_def step5_config_memo_def step6_controller_def replace_def
  old_import_line_def old_state_def new_state_def replacements_def
  old_auto_activate_pattern_def old_activate_handler_pattern_def
  old_animation_loop_pattern_def old_autoplay_pattern_def insert_marker_def canvas_marker_def
  effect_config.select_convs

lemma controller_jsx_split:
  "controller_jsx key config = controller_head key config @ canvas_marker"
  by (simp add: controller_jsx_def controller_head_def canvas_marker_def)

lemma no_step_matches_id:
  assumes "no_step_matches config s"
  shows "refactor_content key config s = s"
proof -
  from assms have "step1_import config s = s" "step2_state config s = s"
    "step3_references config s = s" "step4_remove s = s"
    "step5_config_memo key config s = s" "step6_controller key config s = s"
    by (auto simp: no_step_matches_def list_all_iff
        intro!: step1_absent step2_absent step3_absent step4_absent step5_absent step6_absent)
  then show ?thesis by (simp add: refactor_content_def)
qed

lemma files_to_refactor_keys:
  "\<forall>(p, k) \<in> set (files_to_refactor base_path). k \<in> dom EFFECTS"
  by (simp add: files_to_refactor_def EFFECTS_def)

lemma files_to_refactor_names:
  "map (path_name \<circ> fst) (files_to_refactor base_path)
     = [''TurntableMoviePage.tsx'', ''RevealMoviePage.tsx'',
        ''OrbitMoviePage.tsx'', ''ExplosionMoviePage.tsx'']"
  by (simp add: files_to_refactor_def path_name_def)

lemma summary_written_out:
  "summary rs =
     [CHR 0x0A # replicate 60 (CHR ''=''), ''SUMMARY'', replicate 60 (CHR ''='')]
     @ map (\<lambda>(name, success).
              (if success then [CHR 0xE2, CHR 0x9C, CHR 0x85] @ '' SUCCESS''
               else [CHR 0xE2, CHR 0x9D, CHR 0x8C] @ '' FAILED'') @ '': '' @ name) rs
     @ [replicate 60 (CHR ''='') @ [CHR 0x0A]]"
  by (simp add: summary_def summary_line_def case_prod_beta)

lemma turntable_new_import_plain:
  "\<not> str_in ''activeEffectInstance'' (new_import turntable_config)
   \<and> \<not> str_in ''  // '' (new_import turntable_config)
   \<and> \<not> str_in insert_marker (new_import turntable_config)
   \<and> \<not> str_in canvas_marker (new_import turntable_config)"
  by (simp add: turntable_config_def insert_marker_def canvas_marker_def)

lemma turntable_import_only:
  "refactor_content ''turntable'' turntable_config (old_import_line turntable_config)
     = new_import turntable_config"
proof -
  have 1: "step1_import turntable_config (old_import_line turntable_config)
      = new_import turntable_config"
    by (simp add: step1_import_def replace_def old_import_line_def turntable_config_def)
  show ?thesis
    unfolding refactor_content_def 1
    using turntable_new_import_plain
    by (simp add: no_instance_name_step2 no_instance_name_step3 no_comment_step4
        step5_absent step6_absent)
qed

lemma markers_nonempty: "insert_marker \<noteq> []" "canvas_marker \<noteq> []"
  by (simp_all add: insert_marker_def canvas_marker_def)

lemma markers_apart:
  "apart (tl insert_marker) insert_marker" "apart (tl canvas_marker) canvas_marker"
  by (simp_all add: insert_marker_def canvas_marker_def clash_def)

lemma step5_replace:
  "step5_config_memo key config s
     = replace_from insert_marker (insert_marker @ initial_config key config) s"
  by (cases "str_in insert_marker s")
     (simp_all add: step5_config_memo_def replace_def markers_nonempty replace_from_absent)

lemma step6_replace:
  "step6_controller key config s = replace_from canvas_marker (controller_jsx key config) s"
  by (cases "str_in canvas_marker s")
     (simp_all add: step6_controller_def replace_def markers_nonempty replace_from_absent)

lemma turntable_import_apart:
  "apart (tl (old_import_line turntable_config)) (old_import_line turntable_config)"
  "apart (tl (old_import_line turntable_config)) (new_import turntable_config)"
  "apart (new_import turntable_config) (old_import_line turntable_config)"
  by (simp_all only: old_import_line_def turntable_config_def effect_config.select_convs
      eval_list eval_str cong: if_weak_cong)

lemma other_import_kept:
  "str_in (old_import_line reveal_config) (new_import reveal_config)"
  "str_in (old_import_line orbit_config) (new_import orbit_config)"
  "str_in (old_import_line explosion_config) (new_import explosion_config)"
  by (simp_all only: old_import_line_def reveal_config_def orbit_config_def
      explosion_config_def effect_config.select_convs eval_list eval_str cong: if_weak_cong)

lemma reveal_new_import_plain:
  "\<not> str_in ''activeEffectInstance'' (new_import reveal_config)
   \<and> \<not> str_in ''  // '' (new_import reveal_config)
   \<and> \<not> str_in insert_marker (new_import reveal_config)
   \<and> \<not> str_in canvas_marker (new_import reveal_config)"
  by (simp only: reveal_config_def insert_marker_def canvas_marker_def
      effect_config.select_convs eval_list eval_str cong: if_weak_cong)

lemma reveal_import_only:
  "refactor_content ''reveal'' reveal_config (old_import_line reveal_config)
     = new_import reveal_config"
proof -
  have 1: "step1_import reveal_config (old_import_line reveal_config)
      = new_import reveal_config"
    by (simp only: step1_import_def replace_def old_import_line_def reveal_config_def
        effect_config.select_convs eval_list eval_str cong: if_weak_cong)
  show ?thesis
    unfolding refactor_content_def 1
    using reveal_new_import_plain
    by (simp add: no_instance_name_step2 no_instance_name_step3 no_comment_step4
        step5_absent step6_absent)
qed

lemma canvas_marker_plain:
  "\<not> str_in ''import { '' canvas_marker
   \<and> \<not> str_in ''activeEffectInstance'' canvas_marker
   \<and> \<not> str_in ''  // '' canvas_marker
   \<and> \<not> str_in insert_marker canvas_marker"
  by (simp only: insert_marker_def canvas_marker_def eval_list eval_str cong: if_weak_cong)

lemma turntable_jsx_plain:
  "\<not> str_in ''import { '' (controller_jsx ''turntable'' turntable_config)
   \<and> \<not> str_in ''activeEffectInstance'' (controller_jsx ''turntable'' turntable_config)
   \<and> \<not> str_in ''  // '' (controller_jsx ''turntable'' turntable_config)
   \<and> \<not> str_in insert_marker (controller_jsx ''turntable'' turntable_config)"
  by (simp only: controller_jsx_def turntable_config_def insert_marker_def
      effect_config.select_convs eval_list eval_str cong: if_weak_cong)

lemma steps_1_to_5_plain:
  assumes "\<not> str_in ''import { '' s \<and> \<not> str_in ''activeEffectInstance'' s
     \<and> \<not> str_in ''  // '' s \<and> \<not> str_in insert_marker s"
  shows "refactor_content key config s = step6_controller key config s"
  using assms
  by (simp add: refactor_content_def no_import_step1 no_instance_name_step2
      no_instance_name_step3 no_comment_step4 step5_absent)

lemma canvas_first_pass:
  "refactor_content ''turntable'' turntable_config canvas_marker
     = controller_jsx ''turntable'' turntable_config"
proof -
  have "replace_from canvas_marker (controller_jsx ''turntable'' turntable_config) canvas_marker
      = controller_jsx ''turntable'' turntable_config"
    by (simp only: canvas_marker_def eval_list eval_str append_Nil2 cong: if_weak_cong)
  then show ?thesis
    by (simp only: steps_1_to_5_plain[OF canvas_marker_plain] step6_replace)
qed

lemma canvas_second_pass:
  "refactor_content ''turntable'' turntable_config (controller_jsx ''turntable'' turntable_config)
     = controller_head ''turntable'' turntable_config @ controller_jsx ''turntable'' turntable_config"
proof -
  have "replace_from canvas_marker (controller_jsx ''turntable'' turntable_config)
          (controller_jsx ''turntable'' turntable_config)
      = controller_head ''turntable'' turntable_config @ controller_jsx ''turntable'' turntable_config"
    by (simp only: controller_jsx_def controller_head_def canvas_marker_def
        turntable_config_def effect_config.select_convs eval_list eval_str append_Nil2
        cong: if_weak_cong)
  then show ?thesis
    by (simp only: steps_1_to_5_plain[OF turntable_jsx_plain] step6_replace)
qed

lemma canvas_passes_differ:
  "controller_jsx ''turntable'' turntable_config \<noteq> canvas_marker"
  "controller_head ''turntable'' turntable_config @ controller_jsx ''turntable'' turntable_config
     \<noteq> controller_jsx ''turntable'' turntable_config"
  by (simp_all only: controller_jsx_def controller_head_def canvas_marker_def
      turntable_config_def effect_config.select_convs eval_list)

lemma optional_chaining_apart:
  assumes "EFFECTS effect_key = Some config"
  shows "apart (tl ''activeEffectInstance?.'') ''activeEffectInstance?.''"
    and "apart (tl ''activeEffectInstance?.'') (ref_name config @ ''.current?.'')"
    and "apart (ref_name config @ ''.current?.'') ''activeEffectInstance?.''"
    and "apart (tl (ref_name config @ ''.current?.'')) (ref_name config @ ''.current?.'')"
    and "apart (tl (ref_name config @ ''.current?.'')) ''activeEffectInstance?.''"
    and "apart ''activeEffectInstance?.'' (ref_name config @ ''.current?.'')"
  using assms
  by (elim EFFECTS_cases;
      simp add: clash_def turntable_config_def reveal_config_def orbit_config_def
        explosion_config_def)+

lemma step3_last:
  "step3_references config content
     = re_sub [Lit ''activeEffectInstance?.''] (ref_name config @ ''.current?.'')
         (fold (\<lambda>(pattern, replacement) c. re_sub pattern replacement c)
            (butlast (replacements config)) content)"
  by (simp add: step3_references_def replacements_def)

section \<open>The claims\<close>

subsection \<open>Claim C1\<close>

text \<open>
  Claim C1, in the form that holds of the code. Let a first application of \<open>refactor_file\<close> with a rule of the
  table leave the migrated content in the file. If no step of the rule finds its
  anchor, pattern or marker in the migrated content, a second application with the same
  rule returns False and leaves the store as it is.
\<close>

theorem C1_second_run_noop:
  assumes "EFFECTS effect_key = Some config"
    and "fs filepath = Some original"
    and "refactor_file fs filepath effect_key = Inr (fs1, b)"
    and "no_step_matches config (refactor_content effect_key config original)"
  shows "fs1 filepath = Some (refactor_content effect_key config original)
     \<and> refactor_content effect_key config (refactor_content effect_key config original)
         = refactor_content effect_key config original
     \<and> refactor_file fs1 filepath effect_key = Inr (fs1, False)"
proof -
  let ?m = "refactor_content effect_key config original"
  have f1: "fs1 filepath = Some ?m"
    using assms(1,2,3) by (auto simp: refactor_file_present split: if_splits)
  have id: "refactor_content effect_key config ?m = ?m"
    using assms(4) by (rule no_step_matches_id)
  have "refactor_file fs1 filepath effect_key = Inr (fs1, False)"
    using f1 assms(1) id by (simp add: refactor_file_present)
  with f1 id show ?thesis by simp
qed

theorem C1_second_run_noop_witness:
  "EFFECTS ''turntable'' = Some turntable_config
   \<and> refactor_file [[''Page.tsx''] \<mapsto> ''activeEffectInstance?.x''] [''Page.tsx''] ''turntable''
       = Inr ([[''Page.tsx''] \<mapsto> ''turntablePlayerRef.current?.x''], True)
   \<and> no_step_matches turntable_config ''turntablePlayerRef.current?.x''
   \<and> refactor_file [[''Page.tsx''] \<mapsto> ''turntablePlayerRef.current?.x''] [''Page.tsx''] ''turntable''
       = Inr ([[''Page.tsx''] \<mapsto> ''turntablePlayerRef.current?.x''], False)"
proof -
  let ?fs = "[[''Page.tsx''] \<mapsto> ''activeEffectInstance?.x'']"
  let ?fs1 = "[[''Page.tsx''] \<mapsto> ''turntablePlayerRef.current?.x'']"
  have e: "EFFECTS ''turntable'' = Some turntable_config"
    by (simp add: EFFECTS_def)
  have o: "?fs [''Page.tsx''] = Some ''activeEffectInstance?.x''"
    by simp
  have c: "refactor_content ''turntable'' turntable_config ''activeEffectInstance?.x''
      = ''turntablePlayerRef.current?.x''"
    by (simp only: refactor_defs turntable_config_def eval_list eval_str
        cong: if_weak_cong option.case_cong_weak list.case_cong_weak)
  have r: "refactor_file ?fs [''Page.tsx''] ''turntable'' = Inr (?fs1, True)"
    by (simp add: refactor_file_def e c)
  have n: "no_step_matches turntable_config ''turntablePlayerRef.current?.x''"
    unfolding no_step_matches_def
    by (simp only: refactor_defs turntable_config_def eval_list eval_str list.pred_inject
        cong: if_weak_cong option.case_cong_weak list.case_cong_weak)
  have n': "no_step_matches turntable_config
      (refactor_content ''turntable'' turntable_config ''activeEffectInstance?.x'')"
    unfolding c by (rule n)
  from C1_second_run_noop [OF e o r n']
  have s: "refactor_file ?fs1 [''Page.tsx''] ''turntable'' = Inr (?fs1, False)"
    by blast
  from e r n s show ?thesis
    by (intro conjI)
qed

text \<open>
  The claim as stated fails. Step 6 keeps its marker: a first application to a file
  that holds the canvas marker writes the controller JSX, which ends with the marker,
  and a second application returns True again and writes the JSX a second time.
\<close>

theorem C1_counterexample:
  "refactor_file [[''TurntableMoviePage.tsx''] \<mapsto> canvas_marker]
       [''TurntableMoviePage.tsx''] ''turntable''
     = Inr ([[''TurntableMoviePage.tsx''] \<mapsto> controller_jsx ''turntable'' turntable_config], True)
   \<and> refactor_file [[''TurntableMoviePage.tsx''] \<mapsto> controller_jsx ''turntable'' turntable_config]
       [''TurntableMoviePage.tsx''] ''turntable''
     = Inr ([[''TurntableMoviePage.tsx''] \<mapsto>
              controller_head ''turntable'' turntable_config
                @ controller_jsx ''turntable'' turntable_config], True)
   \<and> controller_head ''turntable'' turntable_config @ controller_jsx ''turntable'' turntable_config
       \<noteq> controller_jsx ''turntable'' turntable_config"
proof -
  have e: "EFFECTS ''turntable'' = Some turntable_config"
    by (simp add: EFFECTS_def)
  have a: "refactor_file [[''TurntableMoviePage.tsx''] \<mapsto> canvas_marker]
       [''TurntableMoviePage.tsx''] ''turntable''
     = Inr ([[''TurntableMoviePage.tsx''] \<mapsto> controller_jsx ''turntable'' turntable_config], True)"
    using canvas_passes_differ(1)
    by (simp add: refactor_file_def e canvas_first_pass)
  have b: "refactor_file [[''TurntableMoviePage.tsx''] \<mapsto> controller_jsx ''turntable'' turntable_config]
       [''TurntableMoviePage.tsx''] ''turntable''
     = Inr ([[''TurntableMoviePage.tsx''] \<mapsto>
              controller_head ''turntable'' turntable_config
                @ controller_jsx ''turntable'' turntable_config], True)"
    using canvas_passes_differ(2)
    by (simp add: refactor_file_def e canvas_second_pass)
  from a b canvas_passes_differ(2) show ?thesis by simp
qed

subsection \<open>Claim C2\<close>

text \<open>
  Claim C2, in the form that holds of the code. When the content holds the legacy import line of a rule of the
  table, the content after step 1 holds the rule's new import block. For turntable the
  legacy line is gone after step 1; for reveal, orbit and explosion it is still there,
  because the new block starts with a commented-out copy of it.
\<close>

theorem C2_import_swap:
  assumes "EFFECTS effect_key = Some config"
    and "str_in (old_import_line config) content"
  shows "str_in (new_import config) (step1_import config content)
     \<and> (effect_key = ''turntable''
          \<longrightarrow> \<not> str_in (old_import_line config) (step1_import config content))
     \<and> (effect_key \<noteq> ''turntable''
          \<longrightarrow> str_in (old_import_line config) (new_import config)
            \<and> str_in (old_import_line config) (step1_import config content))"
proof -
  have new: "str_in (new_import config) (step1_import config content)"
    using assms(2) by (simp add: step1_import_def replace_present)
  have ne: "old_import_line config \<noteq> []"
    by (simp add: old_import_line_def)
  from assms(1) show ?thesis
  proof (cases rule: EFFECTS_cases)
    case 1
    have "old_import_line turntable_config \<noteq> []"
      by (simp add: old_import_line_def)
    then have "\<not> str_in (old_import_line turntable_config)
        (replace_from (old_import_line turntable_config) (new_import turntable_config) content)"
      using turntable_import_apart by (intro replace_from_gone)
    with 1 new ne show ?thesis by (simp add: step1_import_def replace_def)
  next
    case 2
    with new other_import_kept(1) show ?thesis
      by (auto intro: str_in_part)
  next
    case 3
    with new other_import_kept(2) show ?thesis
      by (auto intro: str_in_part)
  next
    case 4
    with new other_import_kept(3) show ?thesis
      by (auto intro: str_in_part)
  qed
qed

theorem C2_import_swap_witness:
  "EFFECTS ''turntable'' = Some turntable_config
   \<and> str_in (old_import_line turntable_config) (''// page'' @ old_import_line turntable_config)
   \<and> str_in (new_import turntable_config)
        (step1_import turntable_config (''// page'' @ old_import_line turntable_config))
   \<and> \<not> str_in (old_import_line turntable_config)
        (step1_import turntable_config (''// page'' @ old_import_line turntable_config))"
proof -
  have e: "EFFECTS ''turntable'' = Some turntable_config"
    by (simp add: EFFECTS_def)
  have h: "str_in (old_import_line turntable_config) (''// page'' @ old_import_line turntable_config)"
    by (intro str_in_append_left str_in_prefix) simp
  from e h C2_import_swap [OF e h] show ?thesis by simp
qed

text \<open>
  The claim as stated fails twice. For reveal the whole transformation of the legacy
  import line is the new import block, which contains the legacy line. And a document
  whose import line stands inside a block that step 4 removes ends without the new
  import block.
\<close>

theorem C2_counterexample:
  "refactor_content ''reveal'' reveal_config (old_import_line reveal_config)
     = new_import reveal_config
   \<and> str_in (old_import_line reveal_config) (new_import reveal_config)
   \<and> str_in (old_import_line turntable_config)
        (''  // Handle X activation\<newline>  const handleActivateEffect = ''
          @ old_import_line turntable_config @ ''\<newline>  };'')
   \<and> refactor_content ''turntable'' turntable_config
        (''  // Handle X activation\<newline>  const handleActivateEffect = ''
          @ old_import_line turntable_config @ ''\<newline>  };'') = []
   \<and> \<not> str_in (new_import turntable_config) []"
proof -
  let ?d = "''  // Handle X activation\<newline>  const handleActivateEffect = ''
          @ old_import_line turntable_config @ ''\<newline>  };''"
  let ?e = "''  // Handle X activation\<newline>  const handleActivateEffect = ''
          @ new_import turntable_config @ ''\<newline>  };''"
  have h: "str_in (old_import_line turntable_config) ?d"
    by (intro str_in_append_left str_in_prefix) simp
  have 1: "step1_import turntable_config ?d = ?e"
    by (simp only: step1_import_def replace_def old_import_line_def turntable_config_def
        effect_config.select_convs eval_list eval_str cong: if_weak_cong)
  have n: "\<not> str_in ''activeEffectInstance'' ?e"
    by (simp only: turntable_config_def effect_config.select_convs eval_list eval_str
        cong: if_weak_cong)
  have 4: "step4_remove ?e = []"
    by (simp only: step4_remove_def old_auto_activate_pattern_def
        old_activate_handler_pattern_def old_animation_loop_pattern_def
        old_autoplay_pattern_def turntable_config_def effect_config.select_convs
        eval_list eval_str cong: if_weak_cong option.case_cong_weak list.case_cong_weak)
  have "refactor_content ''turntable'' turntable_config ?d
      = step6_controller ''turntable'' turntable_config
          (step5_config_memo ''turntable'' turntable_config
            (step4_remove (step3_references turntable_config
              (step2_state turntable_config (step1_import turntable_config ?d)))))"
    by (simp only: refactor_content_def)
  also have "\<dots> = step6_controller ''turntable'' turntable_config
          (step5_config_memo ''turntable'' turntable_config (step4_remove ?e))"
    by (simp only: 1 no_instance_name_step2[OF n] no_instance_name_step3[OF n])
  also have "\<dots> = []"
    unfolding 4
    by (simp add: step5_config_memo_def step6_controller_def insert_marker_def
        canvas_marker_def)
  finally have r: "refactor_content ''turntable'' turntable_config ?d = []" .
  have e: "\<not> str_in (new_import turntable_config) []"
    by (simp add: turntable_config_def)
  from reveal_import_only other_import_kept(1) h r e show ?thesis by simp
qed

subsection \<open>Claim C3\<close>

text \<open>
  Claim C3. On a document of 100 lines and the ranges (10,12) and (12,15), the deletion
  plan is the six indices 9..14 (line 12 counted once), the output is the first nine
  lines followed by the lines from the sixteenth on, so it has 94 lines in their
  original order, and old line 9 is directly followed by old line 16.
\<close>

theorem C3_deletion_union:
  assumes "length ls = 100"
  shows "lines_to_delete [(10, 12, d1), (12, 15, d2)] = {9 .. 14}
       \<and> card (lines_to_delete [(10, 12, d1), (12, 15, d2)]) = 6
       \<and> kept_lines [(10, 12, d1), (12, 15, d2)] ls = take 9 ls @ drop 15 ls
       \<and> length (kept_lines [(10, 12, d1), (12, 15, d2)] ls) = 94
       \<and> subseq (kept_lines [(10, 12, d1), (12, 15, d2)] ls) ls
       \<and> kept_lines [(10, 12, d1), (12, 15, d2)] ls ! 8 = ls ! 8
       \<and> kept_lines [(10, 12, d1), (12, 15, d2)] ls ! 9 = ls ! 15"
proof -
  let ?rs = "[(10, 12, d1), (12, 15, d2)] :: line_range list"
  have plan: "lines_to_delete ?rs = {9 .. 14}"
    by (auto simp: lines_to_delete_iff)
  have kept: "kept_lines ?rs ls = take 9 ls @ drop 15 ls"
    using assms by (intro kept_interval) (auto simp: plan)
  have len: "length (kept_lines ?rs ls) = 94"
    using assms by (simp add: kept)
  have n8: "kept_lines ?rs ls ! 8 = ls ! 8"
    using assms by (simp add: kept nth_append)
  have n9: "kept_lines ?rs ls ! 9 = ls ! 15"
    using assms by (simp add: kept nth_append)
  show ?thesis
    using plan kept len n8 n9 kept_lines_subseq[of ?rs ls] by simp
qed

theorem C3_deletion_union_witness:
  "length (map (\<lambda>n. ''line '' @ [char_of n, CHR 0x0A]) [0 ..< 100]) = 100
   \<and> length (kept_lines [(10, 12, ''a''), (12, 15, ''b'')]
        (map (\<lambda>n. ''line '' @ [char_of n, CHR 0x0A]) [0 ..< 100])) = 94
   \<and> kept_lines [(10, 12, ''a''), (12, 15, ''b'')]
        (map (\<lambda>n. ''line '' @ [char_of n, CHR 0x0A]) [0 ..< 100]) ! 9
      = map (\<lambda>n. ''line '' @ [char_of n, CHR 0x0A]) [0 ..< 100] ! 15"
proof -
  have h: "length (map (\<lambda>n. ''line '' @ [char_of n, CHR 0x0A]) [0 ..< 100]) = 100"
    by simp
  show ?thesis
    using h C3_deletion_union [OF h, of "''a''" "''b''"] by blast
qed

subsection \<open>Claim C4\<close>

text \<open>
  Claim C4. For a rule of the table, \<open>refactor_file\<close> returns True exactly when the
  file exists and the transformed content differs from the original; then the store
  holds the new content at that path, otherwise the store is the one it was given. The
  result is True exactly when the store changed, and no other path is touched.
\<close>

theorem C4_write_iff_changed:
  assumes "EFFECTS effect_key = Some config"
  shows "\<exists>fs' b. refactor_file fs filepath effect_key = Inr (fs', b)
     \<and> (b \<longleftrightarrow> (\<exists>original. fs filepath = Some original
            \<and> refactor_content effect_key config original \<noteq> original))
     \<and> (b \<longrightarrow> (\<exists>original. fs filepath = Some original
            \<and> fs' = fs(filepath \<mapsto> refactor_content effect_key config original)))
     \<and> (\<not> b \<longrightarrow> fs' = fs)
     \<and> (b \<longleftrightarrow> fs' \<noteq> fs)
     \<and> (\<forall>q. q \<noteq> filepath \<longrightarrow> fs' q = fs q)"
proof (cases "fs filepath")
  case None
  then show ?thesis by (simp add: refactor_file_missing)
next
  case (Some original)
  show ?thesis
  proof (cases "refactor_content effect_key config original = original")
    case True
    with Some assms show ?thesis by (simp add: refactor_file_present)
  next
    case False
    let ?new = "refactor_content effect_key config original"
    have "fs(filepath \<mapsto> ?new) \<noteq> fs"
    proof
      assume "fs(filepath \<mapsto> ?new) = fs"
      then have "(fs(filepath \<mapsto> ?new)) filepath = fs filepath" by simp
      with Some False show False by simp
    qed
    with Some assms False show ?thesis by (simp add: refactor_file_present)
  qed
qed

theorem C4_write_iff_changed_witness:
  "EFFECTS ''turntable'' = Some turntable_config
   \<and> refactor_file [[''Page.tsx''] \<mapsto> ''activeEffectInstance?.x''] [''Page.tsx''] ''turntable''
       = Inr ([[''Page.tsx''] \<mapsto> ''turntablePlayerRef.current?.x''], True)
   \<and> refactor_file [[''Page.tsx''] \<mapsto> ''x''] [''Page.tsx''] ''turntable''
       = Inr ([[''Page.tsx''] \<mapsto> ''x''], False)"
proof -
  have e: "EFFECTS ''turntable'' = Some turntable_config"
    by (simp add: EFFECTS_def)
  have c1: "refactor_content ''turntable'' turntable_config ''activeEffectInstance?.x''
      = ''turntablePlayerRef.current?.x''"
    by (simp only: refactor_defs turntable_config_def eval_list eval_str
        cong: if_weak_cong option.case_cong_weak list.case_cong_weak)
  have c2: "refactor_content ''turntable'' turntable_config ''x'' = ''x''"
    by (simp only: refactor_defs turntable_config_def eval_list eval_str
        cong: if_weak_cong option.case_cong_weak list.case_cong_weak)
  from C4_write_iff_changed [OF e, of "[[''Page.tsx''] \<mapsto> ''activeEffectInstance?.x'']" "[''Page.tsx'']"]
  have r1: "refactor_file [[''Page.tsx''] \<mapsto> ''activeEffectInstance?.x''] [''Page.tsx''] ''turntable''
       = Inr ([[''Page.tsx''] \<mapsto> ''turntablePlayerRef.current?.x''], True)"
    by (auto simp: c1)
  from C4_write_iff_changed [OF e, of "[[''Page.tsx''] \<mapsto> ''x'']" "[''Page.tsx'']"]
  have r2: "refactor_file [[''Page.tsx''] \<mapsto> ''x''] [''Page.tsx''] ''turntable''
       = Inr ([[''Page.tsx''] \<mapsto> ''x''], False)"
    by (auto simp: c2)
  from e r1 r2 show ?thesis by simp
qed

subsection \<open>Claim C5\<close>

text \<open>
  Claim C5. A range whose end lies beyond the last line removes the lines from its
  start to the end of the document and nothing else: the output is the lines before
  the start. Indices beyond the document never matter: clipping every range to the
  document's length gives the same output. The run returns a store whenever the input
  file exists; for 100 lines and the range (95,200) the output is the first 94 lines.
\<close>

theorem C5_out_of_bounds:
  assumes "1 \<le> s" and "int (length ls) \<le> e"
  shows "kept_lines [(s, e, d)] ls = take (nat (s - 1)) ls
       \<and> kept_lines rs ls = kept_lines (map (clip_range (length ls)) rs) ls
       \<and> (length ls = 100 \<longrightarrow> kept_lines [(95, 200, d)] ls = take 94 ls)
       \<and> (fs input_file = Some body \<longrightarrow>
            main_with rs' fs
              = Inr (fs(output_file \<mapsto> writelines (kept_lines rs' (readlines body)))))"
proof -
  have one: "kept_lines [(s', e', d)] ls = take (nat (s' - 1)) ls"
    if "1 \<le> s'" "int (length ls) \<le> e'" for s' e'
  proof -
    have "kept_lines [(s', e', d)] ls
        = take (min (nat (s' - 1)) (length ls)) ls @ drop (length ls) ls"
      using that by (intro kept_interval) (auto simp: lines_to_delete_iff)
    then show ?thesis by (simp add: min_def)
  qed
  have clip: "kept_lines rs ls = kept_lines (map (clip_range (length ls)) rs) ls"
    by (intro kept_lines_cong) (force simp: lines_to_delete_iff)
  have ex: "length ls = 100 \<longrightarrow> kept_lines [(95, 200, d)] ls = take 94 ls"
    using one[of 95 200] by simp
  show ?thesis
    using one[OF assms] clip ex by (simp add: main_with_def)
qed

theorem C5_out_of_bounds_witness:
  "(1::int) \<le> 95 \<and> int (length (replicate 100 ''x'')) \<le> 200
   \<and> kept_lines [(95, 200, ''tail'')] (replicate 100 ''x'') = take 94 (replicate 100 ''x'')"
proof -
  have h1: "(1::int) \<le> 95" by simp
  have h2: "int (length (replicate 100 ''x'')) \<le> 200" by simp
  show ?thesis
    using h1 h2 C5_out_of_bounds [OF h1 h2, of "''tail''"] by simp
qed

subsection \<open>Claim C6\<close>

text \<open>
  Claim C6, in the form that holds of the code. The pair for optional chaining is the last of step 3. Applied
  to any content \<open>s\<close> with any rule of the table it leaves no occurrence of
  \<open>activeEffectInstance?.\<close>, and the occurrences of \<open><ref_name>.current?.\<close> in its
  output are those of its input plus one for each occurrence it replaced. So no
  occurrence of the legacy pattern is left after step 3.
\<close>

theorem C6_optional_chaining_rewrite:
  assumes "EFFECTS effect_key = Some config"
  shows "last (replacements config)
       = ([Lit ''activeEffectInstance?.''], ref_name config @ ''.current?.'')
     \<and> \<not> str_in ''activeEffectInstance?.''
          (re_sub [Lit ''activeEffectInstance?.''] (ref_name config @ ''.current?.'') s)
     \<and> count_str ''activeEffectInstance?.''
          (re_sub [Lit ''activeEffectInstance?.''] (ref_name config @ ''.current?.'') s) = 0
     \<and> count_str (ref_name config @ ''.current?.'')
          (re_sub [Lit ''activeEffectInstance?.''] (ref_name config @ ''.current?.'') s)
         = count_str ''activeEffectInstance?.'' s + count_str (ref_name config @ ''.current?.'') s
     \<and> \<not> str_in ''activeEffectInstance?.'' (step3_references config content)"
proof -
  let ?p = "''activeEffectInstance?.''"
  let ?r = "ref_name config @ ''.current?.''"
  note ap = optional_chaining_apart[OF assms]
  have sub: "re_sub [Lit ?p] ?r t = replace_from ?p ?r t" for t
    by (rule re_sub_Lit) simp
  have gone: "\<not> str_in ?p (replace_from ?p ?r t)" for t
    using ap(1,2,3) by (intro replace_from_gone) simp_all
  have cnt: "count_str ?r (replace_from ?p ?r t) = count_str ?p t + count_str ?r t" for t
    using ap(4,5,6) by (intro count_str_replace_from) simp_all
  have l: "last (replacements config) = ([Lit ?p], ?r)"
    by (simp add: replacements_def)
  have s3: "\<not> str_in ?p (step3_references config content)"
    unfolding step3_last sub by (rule gone)
  show ?thesis
    unfolding sub using l gone cnt s3 by (simp add: count_str_absent)
qed

theorem C6_optional_chaining_rewrite_witness:
  "EFFECTS ''turntable'' = Some turntable_config
   \<and> count_str ''activeEffectInstance?.''
        ''activeEffectInstance?.a;activeEffectInstance?.b;activeEffectInstance?.c'' = 3
   \<and> count_str ''turntablePlayerRef.current?.''
        (re_sub [Lit ''activeEffectInstance?.''] ''turntablePlayerRef.current?.''
           ''activeEffectInstance?.a;activeEffectInstance?.b;activeEffectInstance?.c'') = 3
   \<and> \<not> str_in ''activeEffectInstance?.''
        (re_sub [Lit ''activeEffectInstance?.''] ''turntablePlayerRef.current?.''
           ''activeEffectInstance?.a;activeEffectInstance?.b;activeEffectInstance?.c'')"
proof -
  have e: "EFFECTS ''turntable'' = Some turntable_config"
    by (simp add: EFFECTS_def)
  have r: "ref_name turntable_config @ ''.current?.'' = ''turntablePlayerRef.current?.''"
    by (simp add: turntable_config_def)
  have c: "count_str ''activeEffectInstance?.''
        ''activeEffectInstance?.a;activeEffectInstance?.b;activeEffectInstance?.c'' = 3"
    by simp
  have c': "count_str ''turntablePlayerRef.current?.''
        ''activeEffectInstance?.a;activeEffectInstance?.b;activeEffectInstance?.c'' = 0"
    by simp
  from C6_optional_chaining_rewrite [OF e,
      of "''activeEffectInstance?.a;activeEffectInstance?.b;activeEffectInstance?.c''"]
  show ?thesis
    unfolding r c c' using e by simp
qed

text \<open>
  The claim as stated fails: a document with three optional-chaining accesses and one
  call of \<open>play\<close> ends with four occurrences of the rewritten form, since the rewrite of
  the method call produces it as well.
\<close>

theorem C6_counterexample:
  "count_str ''activeEffectInstance?.''
     ''activeEffectInstance?.a;activeEffectInstance?.b;activeEffectInstance?.c;activeEffectInstance.play()'' = 3
   \<and> refactor_content ''turntable'' turntable_config
       ''activeEffectInstance?.a;activeEffectInstance?.b;activeEffectInstance?.c;activeEffectInstance.play()''
     = ''turntablePlayerRef.current?.a;turntablePlayerRef.current?.b;turntablePlayerRef.current?.c;turntablePlayerRef.current?.play()''
   \<and> count_str ''turntablePlayerRef.current?.''
       ''turntablePlayerRef.current?.a;turntablePlayerRef.current?.b;turntablePlayerRef.current?.c;turntablePlayerRef.current?.play()'' = 4"
  apply (simp only: refactor_defs turntable_config_def eval_list eval_str
      cong: if_weak_cong option.case_cong_weak list.case_cong_weak)
  apply simp
  done

subsection \<open>Claim C7\<close>

text \<open>
  Claim C7, in the form that holds of the code. For a path that does not exist
  \<open>refactor_file\<close> returns False with the disk unchanged, whatever the rule key, and the
  loop of \<open>main\<close> goes on with the remaining files. When none of the four target files
  is undecodable, \<open>main\<close> returns: its results name all four files in order, the entry
  of every missing file is False, no file is created, and the printed summary is the
  header, one line \<open>status: name\<close> for every result and the closing rule. When one of
  the target files is undecodable, \<open>main\<close> ends with the read error and prints no
  summary.
\<close>

theorem C7_missing_file:
  assumes "d filepath = None"
  shows "refactor_file_on_disk d filepath effect_key = Inr (d, False)
     \<and> refactor_loop ((filepath, effect_key) # rest) d results
         = refactor_loop rest d (results @ [(path_name filepath, False)])
     \<and> ((\<forall>(p, k) \<in> set (files_to_refactor (script_dir @ [''src'', ''pages'', ''movies''])).
             d0 p \<noteq> Some Undecodable)
          \<longrightarrow> (\<exists>d' rs. main_refactor script_dir d0 =
                Inr (d', rs,
                  [CHR 0x0A # replicate 60 (CHR ''=''), ''SUMMARY'', replicate 60 (CHR ''='')]
                  @ map (\<lambda>(name, success).
                           (if success then [CHR 0xE2, CHR 0x9C, CHR 0x85] @ '' SUCCESS''
                            else [CHR 0xE2, CHR 0x9D, CHR 0x8C] @ '' FAILED'')
                           @ '': '' @ name) rs
                  @ [replicate 60 (CHR ''='') @ [CHR 0x0A]])
              \<and> map fst rs = [''TurntableMoviePage.tsx'', ''RevealMoviePage.tsx'',
                               ''OrbitMoviePage.tsx'', ''ExplosionMoviePage.tsx'']
              \<and> dom d' = dom d0
              \<and> (\<forall>i < 4. d0 (fst (files_to_refactor
                      (script_dir @ [''src'', ''pages'', ''movies'']) ! i)) = None
                    \<longrightarrow> \<not> snd (rs ! i))))
     \<and> ((\<exists>(p, k) \<in> set (files_to_refactor (script_dir @ [''src'', ''pages'', ''movies''])).
             d0 p = Some Undecodable)
          \<longrightarrow> main_refactor script_dir d0 = Inl UnicodeDecodeError)"
proof -
  let ?files = "files_to_refactor (script_dir @ [''src'', ''pages'', ''movies''])"
  have one: "refactor_file_on_disk d filepath effect_key = Inr (d, False)"
    using assms by (rule refactor_file_on_disk_missing)
  have step: "refactor_loop ((filepath, effect_key) # rest) d results
      = refactor_loop rest d (results @ [(path_name filepath, False)])"
    by (simp add: one)
  have len: "length ?files = 4" by (simp add: files_to_refactor_def)
  have ok: "\<exists>d' rs. main_refactor script_dir d0 =
                Inr (d', rs,
                  [CHR 0x0A # replicate 60 (CHR ''=''), ''SUMMARY'', replicate 60 (CHR ''='')]
                  @ map (\<lambda>(name, success).
                           (if success then [CHR 0xE2, CHR 0x9C, CHR 0x85] @ '' SUCCESS''
                            else [CHR 0xE2, CHR 0x9D, CHR 0x8C] @ '' FAILED'')
                           @ '': '' @ name) rs
                  @ [replicate 60 (CHR ''='') @ [CHR 0x0A]])
              \<and> map fst rs = [''TurntableMoviePage.tsx'', ''RevealMoviePage.tsx'',
                               ''OrbitMoviePage.tsx'', ''ExplosionMoviePage.tsx'']
              \<and> dom d' = dom d0
              \<and> (\<forall>i < 4. d0 (fst (?files ! i)) = None \<longrightarrow> \<not> snd (rs ! i))"
    if readable: "\<forall>(p, k) \<in> set ?files. d0 p \<noteq> Some Undecodable"
  proof -
    from readable files_to_refactor_keys[of "script_dir @ [''src'', ''pages'', ''movies'']"]
    have "\<forall>(p, k) \<in> set ?files. k \<in> dom EFFECTS \<and> d0 p \<noteq> Some Undecodable"
      by auto
    from refactor_loop_readable[OF this, of "[]"]
    obtain d' rs where l: "refactor_loop ?files d0 [] = Inr (d', rs)"
      and n: "map fst rs = map (path_name \<circ> fst) ?files"
      and dm: "dom d' = dom d0"
      and m: "\<forall>i < length ?files. d0 (fst (?files ! i)) = None \<longrightarrow> \<not> snd (rs ! i)"
      by auto
    have "main_refactor script_dir d0 = Inr (d', rs, summary rs)"
      by (simp add: main_refactor_def l)
    with n dm m len show ?thesis
      unfolding summary_written_out files_to_refactor_names by auto
  qed
  have abort: "main_refactor script_dir d0 = Inl UnicodeDecodeError"
    if "\<exists>(p, k) \<in> set ?files. d0 p = Some Undecodable"
    using refactor_loop_aborts[OF files_to_refactor_keys that, of "[]"]
    by (simp add: main_refactor_def)
  from one step ok abort show ?thesis by blast
qed

theorem C7_missing_file_witness:
  "[[''repo'', ''src'', ''pages'', ''movies'', ''RevealMoviePage.tsx'']
        \<mapsto> Text ''activeEffectInstance?.x'']
      [''repo'', ''src'', ''pages'', ''movies'', ''TurntableMoviePage.tsx''] = None
   \<and> refactor_file_on_disk
        [[''repo'', ''src'', ''pages'', ''movies'', ''RevealMoviePage.tsx'']
          \<mapsto> Text ''activeEffectInstance?.x'']
        [''repo'', ''src'', ''pages'', ''movies'', ''TurntableMoviePage.tsx''] ''turntable''
      = Inr ([[''repo'', ''src'', ''pages'', ''movies'', ''RevealMoviePage.tsx'']
               \<mapsto> Text ''activeEffectInstance?.x''], False)
   \<and> main_refactor [''repo'']
        [[''repo'', ''src'', ''pages'', ''movies'', ''RevealMoviePage.tsx'']
          \<mapsto> Text ''activeEffectInstance?.x'']
      = Inr ([[''repo'', ''src'', ''pages'', ''movies'', ''RevealMoviePage.tsx'']
               \<mapsto> Text ''revealPlayerRef.current?.x''],
             [(''TurntableMoviePage.tsx'', False), (''RevealMoviePage.tsx'', True),
              (''OrbitMoviePage.tsx'', False), (''ExplosionMoviePage.tsx'', False)],
             [CHR 0x0A # replicate 60 (CHR ''=''), ''SUMMARY'', replicate 60 (CHR ''=''),
              [CHR 0xE2, CHR 0x9D, CHR 0x8C] @ '' FAILED: TurntableMoviePage.tsx'',
              [CHR 0xE2, CHR 0x9C, CHR 0x85] @ '' SUCCESS: RevealMoviePage.tsx'',
              [CHR 0xE2, CHR 0x9D, CHR 0x8C] @ '' FAILED: OrbitMoviePage.tsx'',
              [CHR 0xE2, CHR 0x9D, CHR 0x8C] @ '' FAILED: ExplosionMoviePage.tsx'',
              replicate 60 (CHR ''='') @ [CHR 0x0A]])"
proof -
  let ?d = "[[''repo'', ''src'', ''pages'', ''movies'', ''RevealMoviePage.tsx'']
        \<mapsto> Text ''activeEffectInstance?.x'']"
  have h: "?d [''repo'', ''src'', ''pages'', ''movies'', ''TurntableMoviePage.tsx''] = None"
    by simp
  have readable: "\<forall>(p, k) \<in> set (files_to_refactor ([''repo''] @ [''src'', ''pages'', ''movies''])).
      ?d p \<noteq> Some Undecodable"
    by (simp add: files_to_refactor_def)
  have c: "refactor_content ''reveal'' reveal_config ''activeEffectInstance?.x''
      = ''revealPlayerRef.current?.x''"
    by (simp only: refactor_defs reveal_config_def eval_list eval_str
        cong: if_weak_cong option.case_cong_weak list.case_cong_weak)
  have m: "main_refactor [''repo''] ?d
      = Inr ([[''repo'', ''src'', ''pages'', ''movies'', ''RevealMoviePage.tsx'']
               \<mapsto> Text ''revealPlayerRef.current?.x''],
             [(''TurntableMoviePage.tsx'', False), (''RevealMoviePage.tsx'', True),
              (''OrbitMoviePage.tsx'', False), (''ExplosionMoviePage.tsx'', False)],
             [CHR 0x0A # replicate 60 (CHR ''=''), ''SUMMARY'', replicate 60 (CHR ''=''),
              [CHR 0xE2, CHR 0x9D, CHR 0x8C] @ '' FAILED: TurntableMoviePage.tsx'',
              [CHR 0xE2, CHR 0x9C, CHR 0x85] @ '' SUCCESS: RevealMoviePage.tsx'',
              [CHR 0xE2, CHR 0x9D, CHR 0x8C] @ '' FAILED: OrbitMoviePage.tsx'',
              [CHR 0xE2, CHR 0x9D, CHR 0x8C] @ '' FAILED: ExplosionMoviePage.tsx'',
              replicate 60 (CHR ''='') @ [CHR 0x0A]])"
    by (simp add: main_refactor_def files_to_refactor_def refactor_file_on_disk_def
        read_text_def EFFECTS_def path_name_def summary_def summary_line_def c)
  note t = C7_missing_file [where d = ?d
      and filepath = "[''repo'', ''src'', ''pages'', ''movies'', ''TurntableMoviePage.tsx'']"
      and effect_key = "''turntable''" and ?d0.0 = ?d and script_dir = "[''repo'']", OF h]
  from t have one: "refactor_file_on_disk ?d
        [''repo'', ''src'', ''pages'', ''movies'', ''TurntableMoviePage.tsx''] ''turntable''
      = Inr (?d, False)"
    by blast
  from t readable have "\<exists>d' rs summ. main_refactor [''repo''] ?d = Inr (d', rs, summ)"
    by blast
  with h one m show ?thesis by (intro conjI)
qed

text \<open>
  The claim as stated fails. With the first target missing and the second one not
  decodable as UTF-8, the missing file gives False and the loop goes on, but the read
  of the second file raises, nothing catches it, and \<open>main\<close> ends without a summary.
\<close>

theorem C7_counterexample:
  "[[''repo'', ''src'', ''pages'', ''movies'', ''RevealMoviePage.tsx''] \<mapsto> Undecodable]
      [''repo'', ''src'', ''pages'', ''movies'', ''TurntableMoviePage.tsx''] = None
   \<and> refactor_file_on_disk
        [[''repo'', ''src'', ''pages'', ''movies'', ''RevealMoviePage.tsx''] \<mapsto> Undecodable]
        [''repo'', ''src'', ''pages'', ''movies'', ''TurntableMoviePage.tsx''] ''turntable''
      = Inr ([[''repo'', ''src'', ''pages'', ''movies'', ''RevealMoviePage.tsx'']
               \<mapsto> Undecodable], False)
   \<and> main_refactor [''repo'']
        [[''repo'', ''src'', ''pages'', ''movies'', ''RevealMoviePage.tsx''] \<mapsto> Undecodable]
      = Inl UnicodeDecodeError"
  by (simp add: main_refactor_def files_to_refactor_def refactor_file_on_disk_def
      read_text_def EFFECTS_def path_name_def)

subsection \<open>Claim C8\<close>

text \<open>
  Claim C8. A run of the deletion engine that returns has written the output path only:
  the output path is the input path with the suffix \<open>.cleaned\<close> and differs from it,
  the input file still holds its text, every path other than the output path is as
  before, and the output file holds the kept lines. This holds for every list of ranges,
  the list \<open>DELETE_RANGES\<close> of the script among them.
\<close>

theorem C8_output_distinct:
  assumes "main_with ranges fs = Inr fs'"
  shows "output_file = input_file @ ''.cleaned''
       \<and> output_file \<noteq> input_file
       \<and> fs' input_file = fs input_file
       \<and> (\<forall>p. p \<noteq> output_file \<longrightarrow> fs' p = fs p)
       \<and> (\<exists>text. fs input_file = Some text
            \<and> fs' output_file = Some (writelines (kept_lines ranges (readlines text))))
       \<and> (ranges = DELETE_RANGES \<longrightarrow> main_remove fs = Inr fs')"
proof -
  have sf: "output_file = input_file @ ''.cleaned''"
    by (simp add: output_file_def input_file_def)
  have ne: "output_file \<noteq> input_file"
    by (simp add: output_file_def input_file_def)
  from assms obtain body where t: "fs input_file = Some body"
    and fs': "fs' = fs(output_file \<mapsto> writelines (kept_lines ranges (readlines body)))"
    by (auto simp: main_with_def split: option.splits)
  show ?thesis using sf ne t fs' assms by (auto simp: main_remove_def)
qed

theorem C8_output_distinct_witness:
  "main_with [(1, 1, ''first'')] [input_file \<mapsto> ''a\<newline>b\<newline>'']
     = Inr [input_file \<mapsto> ''a\<newline>b\<newline>'', output_file \<mapsto> ''b\<newline>'']
   \<and> [input_file \<mapsto> ''a\<newline>b\<newline>'', output_file \<mapsto> ''b\<newline>''] input_file
     = [input_file \<mapsto> ''a\<newline>b\<newline>''] input_file"
proof -
  have k: "kept_lines [(1, 1, ''first'')] [''a\<newline>'', ''b\<newline>''] = [''b\<newline>'']"
    by (simp add: kept_lines_def lines_to_delete_def enumerate_eq_zip)
  have h: "main_with [(1, 1, ''first'')] [input_file \<mapsto> ''a\<newline>b\<newline>'']
     = Inr [input_file \<mapsto> ''a\<newline>b\<newline>'', output_file \<mapsto> ''b\<newline>'']"
    by (simp add: main_with_def writelines_def k)
  show ?thesis
    using h C8_output_distinct [OF h] by simp
qed

subsection \<open>Claim C9\<close>

text \<open>
  Claim C9. A step whose anchor, pattern or marker is absent returns its input: the
  two literal replacements, every single \<open>re.sub\<close>, the twelve reference rewrites
  together, the four block removals together, and the two insertions. The steps are
  applied one after the other whatever the earlier ones found, so when the insertion
  markers are absent the result is the output of steps 1 to 4, in which a legacy import
  line has been swapped for the new import block. On an existing file and a rule of the
  table \<open>refactor_file\<close> returns a result and raises nothing.
\<close>

theorem C9_steps_total:
  "(\<not> str_in (old_import_line config) s \<longrightarrow> step1_import config s = s)
   \<and> (\<not> str_in old_state s \<longrightarrow> step2_state config s = s)
   \<and> (\<not> re_search pat s \<longrightarrow> re_sub pat repl s = s)
   \<and> ((\<forall>(pat, r) \<in> set (replacements config). \<not> re_search pat s)
        \<longrightarrow> step3_references config s = s)
   \<and> (\<not> re_search old_auto_activate_pattern s \<and> \<not> re_search old_activate_handler_pattern s
        \<and> \<not> re_search old_animation_loop_pattern s \<and> \<not> re_search old_autoplay_pattern s
        \<longrightarrow> step4_remove s = s)
   \<and> (\<not> str_in insert_marker s \<longrightarrow> step5_config_memo effect_key config s = s)
   \<and> (\<not> str_in canvas_marker s \<longrightarrow> step6_controller effect_key config s = s)
   \<and> (\<not> str_in insert_marker
            (step4_remove (step3_references config (step2_state config (step1_import config d))))
        \<and> \<not> str_in canvas_marker
            (step4_remove (step3_references config (step2_state config (step1_import config d))))
        \<longrightarrow> refactor_content effect_key config d
            = step4_remove (step3_references config (step2_state config (step1_import config d))))
   \<and> (str_in (old_import_line config) d \<longrightarrow> str_in (new_import config) (step1_import config d))
   \<and> (fs filepath = Some d \<and> EFFECTS effect_key = Some config
        \<longrightarrow> (\<exists>fs' b. refactor_file fs filepath effect_key = Inr (fs', b)))"
proof -
  have imp: "str_in (old_import_line config) d \<longrightarrow> str_in (new_import config) (step1_import config d)"
    by (simp add: step1_import_def replace_present)
  have ret: "fs filepath = Some d \<and> EFFECTS effect_key = Some config
        \<longrightarrow> (\<exists>fs' b. refactor_file fs filepath effect_key = Inr (fs', b))"
    by (auto simp: refactor_file_present)
  have rest: "\<not> str_in insert_marker
            (step4_remove (step3_references config (step2_state config (step1_import config d))))
        \<and> \<not> str_in canvas_marker
            (step4_remove (step3_references config (step2_state config (step1_import config d))))
        \<longrightarrow> refactor_content effect_key config d
            = step4_remove (step3_references config (step2_state config (step1_import config d)))"
    by (simp add: refactor_content_def step5_absent step6_absent)
  show ?thesis
    using imp ret rest
    by (intro conjI impI step1_absent step2_absent step3_absent step5_absent step6_absent
        re_sub_no_match step4_absent) simp_all
qed

theorem C9_steps_total_witness:
  "str_in (old_import_line turntable_config) (old_import_line turntable_config)
   \<and> \<not> str_in insert_marker (new_import turntable_config)
   \<and> \<not> str_in canvas_marker (new_import turntable_config)
   \<and> step5_config_memo ''turntable'' turntable_config (new_import turntable_config)
       = new_import turntable_config
   \<and> step6_controller ''turntable'' turntable_config (new_import turntable_config)
       = new_import turntable_config
   \<and> str_in (new_import turntable_config)
        (step1_import turntable_config (old_import_line turntable_config))
   \<and> refactor_content ''turntable'' turntable_config (old_import_line turntable_config)
       = new_import turntable_config"
proof -
  have h: "str_in (old_import_line turntable_config) (old_import_line turntable_config)"
    by (rule str_in_prefix) simp
  from h turntable_new_import_plain turntable_import_only
    C9_steps_total [of turntable_config "new_import turntable_config" _ _ "''turntable''"
      "old_import_line turntable_config"]
  show ?thesis by simp
qed

subsection \<open>Claim C10\<close>

text \<open>
  Claim C10. Cut the content at the occurrences of a marker, found from left to right:
  the content is the pieces joined by the marker, one more piece than occurrences.
  Step 5 returns the same pieces joined by the marker followed by the generated
  fragment, and step 6 the same pieces joined by the generated JSX followed by the
  marker: the fragment is inserted at every occurrence and each marker is kept. Two
  occurrences of a marker cannot overlap. For a document that steps 1 to 4 leave as it
  is, the whole transformation is these two insertions.
\<close>

theorem C10_insert_every_occurrence:
  "content = join_str insert_marker (split_str insert_marker content)
   \<and> length (split_str insert_marker content) = Suc (count_str insert_marker content)
   \<and> step5_config_memo effect_key config content
       = join_str (insert_marker @ initial_config effect_key config)
           (split_str insert_marker content)
   \<and> content = join_str canvas_marker (split_str canvas_marker content)
   \<and> length (split_str canvas_marker content) = Suc (count_str canvas_marker content)
   \<and> step6_controller effect_key config content
       = join_str (controller_head effect_key config @ canvas_marker)
           (split_str canvas_marker content)
   \<and> apart (tl insert_marker) insert_marker
   \<and> apart (tl canvas_marker) canvas_marker
   \<and> (step4_remove (step3_references config (step2_state config
            (step1_import config content))) = content
        \<longrightarrow> refactor_content effect_key config content
            = step6_controller effect_key config
                (join_str (insert_marker @ initial_config effect_key config)
                   (split_str insert_marker content)))"
proof -
  have a: "content = join_str insert_marker (split_str insert_marker content)"
    by (simp add: join_split_str markers_nonempty)
  have b: "content = join_str canvas_marker (split_str canvas_marker content)"
    by (simp add: join_split_str markers_nonempty)
  have c: "step5_config_memo effect_key config content
       = join_str (insert_marker @ initial_config effect_key config)
           (split_str insert_marker content)"
    unfolding step5_replace by (rule replace_from_split) (rule markers_nonempty)
  have d: "step6_controller effect_key config content
       = join_str (controller_head effect_key config @ canvas_marker)
           (split_str canvas_marker content)"
    unfolding step6_replace controller_jsx_split
    by (rule replace_from_split) (rule markers_nonempty)
  have e: "step4_remove (step3_references config (step2_state config
            (step1_import config content))) = content
        \<longrightarrow> refactor_content effect_key config content
            = step6_controller effect_key config
                (join_str (insert_marker @ initial_config effect_key config)
                   (split_str insert_marker content))"
    using c by (simp add: refactor_content_def)
  show ?thesis
    using a b c d e markers_apart length_split_str[of insert_marker content]
      length_split_str[of canvas_marker content]
    by (intro conjI)
qed

theorem C10_insert_every_occurrence_witness:
  "count_str insert_marker (insert_marker @ ''x'' @ insert_marker) = 2
   \<and> step5_config_memo ''orbit'' orbit_config (insert_marker @ ''x'' @ insert_marker)
       = (insert_marker @ initial_config ''orbit'' orbit_config) @ ''x''
         @ (insert_marker @ initial_config ''orbit'' orbit_config)
   \<and> count_str canvas_marker (canvas_marker @ ''x'' @ canvas_marker) = 2
   \<and> step6_controller ''orbit'' orbit_config (canvas_marker @ ''x'' @ canvas_marker)
       = (controller_head ''orbit'' orbit_config @ canvas_marker) @ ''x''
         @ (controller_head ''orbit'' orbit_config @ canvas_marker)"
proof -
  have s5: "split_str insert_marker (insert_marker @ ''x'' @ insert_marker) = [[], ''x'', []]"
    by (simp add: insert_marker_def)
  have s6: "split_str canvas_marker (canvas_marker @ ''x'' @ canvas_marker) = [[], ''x'', []]"
    by (simp add: canvas_marker_def)
  have c5: "count_str insert_marker (insert_marker @ ''x'' @ insert_marker) = 2"
    by (simp add: insert_marker_def)
  have c6: "count_str canvas_marker (canvas_marker @ ''x'' @ canvas_marker) = 2"
    by (simp add: canvas_marker_def)
  from C10_insert_every_occurrence [of "insert_marker @ ''x'' @ insert_marker" "''orbit''" orbit_config]
  have r5: "step5_config_memo ''orbit'' orbit_config (insert_marker @ ''x'' @ insert_marker)
       = (insert_marker @ initial_config ''orbit'' orbit_config) @ ''x''
         @ (insert_marker @ initial_config ''orbit'' orbit_config)"
    unfolding s5 by simp
  from C10_insert_every_occurrence [of "canvas_marker @ ''x'' @ canvas_marker" "''orbit''" orbit_config]
  have r6: "step6_controller ''orbit'' orbit_config (canvas_marker @ ''x'' @ canvas_marker)
       = (controller_head ''orbit'' orbit_config @ canvas_marker) @ ''x''
         @ (controller_head ''orbit'' orbit_config @ canvas_marker)"
    unfolding s6 by simp
  from c5 c6 r5 r6 show ?thesis by simp
qed

end
